theory Spec2Isabelle
  imports Main "HOL-Library.Word"
begin

unbundle bit_operations_syntax

section \<open>MayaUsbDevice: a shallow embedding of MayaUsbDevice.cpp\<close>

text \<open>
  The device class talks to three outside parties: the USB library (control and bulk
  transfers, descriptors), the JPEG codec and the host that submits frames. Each of them
  is a parameter of the model: what a transfer returns is supplied by an environment
  value, never computed. Exceptions are values of a sum type, background workers are
  functions from the observations they make (loads of the cancellation flag, transfer
  results) to the trace of effects they produce.
\<close>

subsection \<open>Bytes and constants\<close>

type_synonym byte = "8 word"

text \<open>\<^verbatim>\<open>static constexpr size_t BUFFER_LEN = 16384\<close> (MayaUsbDevice.h).\<close>

definition BUFFER_LEN :: nat where
  "BUFFER_LEN = 16384"

text \<open>Constants of libusb.h that the source names.\<close>

definition LIBUSB_ENDPOINT_IN :: byte where
  "LIBUSB_ENDPOINT_IN = 0x80"

definition LIBUSB_ENDPOINT_OUT :: byte where
  "LIBUSB_ENDPOINT_OUT = 0x00"

definition LIBUSB_REQUEST_TYPE_VENDOR :: byte where
  "LIBUSB_REQUEST_TYPE_VENDOR = 0x40"

definition LIBUSB_ERROR_TIMEOUT :: int where
  "LIBUSB_ERROR_TIMEOUT = - 7"

subsection \<open>Errors\<close>

text \<open>
  Every \<^verbatim>\<open>throw\<close> of the source raises a \<^verbatim>\<open>std::runtime_error\<close> with a message; the
  message identifies the failure. The specification's names for them are given as
  abbreviating definitions.
\<close>

datatype error = RuntimeError string

definition ProtocolUnsupported :: error where
  "ProtocolUnsupported = RuntimeError ''AOA protocol version < 1''"

definition ControlReadError :: error where
  "ControlReadError = RuntimeError ''Could not get request''"

definition ControlTransferError :: error where
  "ControlTransferError = RuntimeError ''Could not send request''"

subsection \<open>Control transfers\<close>

text \<open>
  One call of \<^verbatim>\<open>libusb_control_transfer\<close>: the setup fields, the bytes the caller put
  into the transfer buffer (\<open>payload\<close>; empty for a null buffer or for an IN request)
  and the length it announced (\<open>wLength\<close>, a \<^verbatim>\<open>uint16_t\<close> parameter of libusb).
\<close>

record control_transfer =
  bmRequestType :: byte
  bRequest :: byte
  wValue :: "16 word"
  wIndex :: "16 word"
  payload :: string
  wLength :: "16 word"

text \<open>
  The device's side of the control endpoint: the value \<^verbatim>\<open>libusb_control_transfer\<close>
  returns for a request (negative on failure) and the two bytes it stores for an IN
  request, read by the source through an \<^verbatim>\<open>int16_t\<close>.
\<close>

record control_endpoint =
  ctl_status :: "control_transfer \<Rightarrow> int"
  ctl_int16 :: "16 word"

text \<open>
  A computation that issues control transfers: the transfers issued, in order, and the
  outcome. \<open>then_do\<close> is C++ sequencing: an exception skips what follows.
\<close>

type_synonym 'a control_run = "control_transfer list \<times> (error + 'a)"

definition then_do :: "'a control_run \<Rightarrow> ('a \<Rightarrow> 'b control_run) \<Rightarrow> 'b control_run" where
  "then_do m f =
     (case m of
        (issued, Inl e) \<Rightarrow> (issued, Inl e)
      | (issued, Inr a) \<Rightarrow> (case f a of (later, r) \<Rightarrow> (issued @ later, r)))"

definition get_request :: "byte \<Rightarrow> control_transfer" where
  "get_request request =
     \<lparr>bmRequestType = LIBUSB_ENDPOINT_IN OR LIBUSB_REQUEST_TYPE_VENDOR,
      bRequest = request, wValue = 0, wIndex = 0, payload = [], wLength = 2\<rparr>"

definition getControlInt16 :: "control_endpoint \<Rightarrow> byte \<Rightarrow> (16 word) control_run" where
  "getControlInt16 dev request =
     (let t = get_request request in
      if ctl_status dev t < 0 then ([t], Inl ControlReadError)
      else ([t], Inr (ctl_int16 dev)))"

definition send_request :: "byte \<Rightarrow> control_transfer" where
  "send_request request =
     \<lparr>bmRequestType = LIBUSB_ENDPOINT_OUT OR LIBUSB_REQUEST_TYPE_VENDOR,
      bRequest = request, wValue = 0, wIndex = 0, payload = [], wLength = 0\<rparr>"

definition sendControl :: "control_endpoint \<Rightarrow> byte \<Rightarrow> unit control_run" where
  "sendControl dev request =
     (let t = send_request request in
      if ctl_status dev t < 0 then ([t], Inl ControlTransferError)
      else ([t], Inr ()))"

text \<open>
  \<^verbatim>\<open>char temp[256]; str.copy(&temp[0], sizeof(temp));\<close> copies the first
  \<open>min 256 (size str)\<close> characters; the length handed to libusb is \<^verbatim>\<open>str.size()\<close>,
  converted to the \<^verbatim>\<open>uint16_t\<close> parameter.
\<close>

definition string_request :: "byte \<Rightarrow> 16 word \<Rightarrow> string \<Rightarrow> control_transfer" where
  "string_request request index str =
     \<lparr>bmRequestType = LIBUSB_ENDPOINT_OUT OR LIBUSB_REQUEST_TYPE_VENDOR,
      bRequest = request, wValue = 0, wIndex = index,
      payload = take 256 str, wLength = of_nat (length str)\<rparr>"

definition sendControlString ::
  "control_endpoint \<Rightarrow> byte \<Rightarrow> 16 word \<Rightarrow> string \<Rightarrow> unit control_run" where
  "sendControlString dev request index str =
     (let t = string_request request index str in
      if ctl_status dev t < 0 then ([t], Inl ControlTransferError)
      else ([t], Inr ()))"

definition convertToAccessory :: "control_endpoint \<Rightarrow> unit control_run" where
  "convertToAccessory dev =
     then_do (getControlInt16 dev 51) (\<lambda>protocolVersion.
       if sint protocolVersion < 1 then ([], Inl ProtocolUnsupported)
       else
         then_do (sendControlString dev 52 0 ''SiriusCybernetics'') (\<lambda>_.
         then_do (sendControlString dev 52 1 ''MayaUsb'') (\<lambda>_.
         then_do (sendControlString dev 52 2 ''Maya USB streaming'') (\<lambda>_.
         then_do (sendControlString dev 52 3 ''0.42'') (\<lambda>_.
         then_do (sendControlString dev 52 4 ''https://sdao.me'') (\<lambda>_.
         then_do (sendControlString dev 52 5 ''42'') (\<lambda>_.
         sendControl dev 53)))))))"

text \<open>
  The sequence the specification describes, written out: one vendor IN request for the
  protocol version, six vendor OUT string requests and the start request.
\<close>

definition vendor_in :: "byte \<Rightarrow> 16 word \<Rightarrow> control_transfer" where
  "vendor_in request len =
     \<lparr>bmRequestType = 0xC0, bRequest = request, wValue = 0, wIndex = 0,
      payload = [], wLength = len\<rparr>"

definition vendor_out :: "byte \<Rightarrow> 16 word \<Rightarrow> string \<Rightarrow> control_transfer" where
  "vendor_out request index bytes =
     \<lparr>bmRequestType = 0x40, bRequest = request, wValue = 0, wIndex = index,
      payload = bytes, wLength = of_nat (length bytes)\<rparr>"

definition aoap_sequence :: "control_transfer list" where
  "aoap_sequence =
     [vendor_in 51 2,
      vendor_out 52 0 ''SiriusCybernetics'',
      vendor_out 52 1 ''MayaUsb'',
      vendor_out 52 2 ''Maya USB streaming'',
      vendor_out 52 3 ''0.42'',
      vendor_out 52 4 ''https://sdao.me'',
      vendor_out 52 5 ''42'',
      vendor_out 53 0 []]"

subsection \<open>Construction: opening the device and finding its endpoints\<close>

record MayaUsbDeviceId =
  vid :: "16 word"
  pid :: "16 word"

definition getAoapIds :: "MayaUsbDeviceId list" where
  "getAoapIds = [\<lparr>vid = 0x18D1, pid = 0x2D00\<rparr>, \<lparr>vid = 0x18D1, pid = 0x2D01\<rparr>]"

record endpoint_descriptor =
  bEndpointAddress :: byte
  bmAttributes :: byte

text \<open>
  What libusb answers while the constructor runs: which identities open, the status of
  each descriptor call with the strings read, the endpoints of
  \<^verbatim>\<open>configDesc->interface[0].altsetting[0]\<close> (\<^verbatim>\<open>bNumEndpoints\<close> of them), and the
  status of claiming interface 0.
\<close>

record usb_bus =
  opens :: "MayaUsbDeviceId \<Rightarrow> bool"
  descriptor_status :: int
  manufacturer_status :: int
  manufacturer_string :: string
  product_status :: int
  product_string :: string
  config_status :: int
  endpoints :: "endpoint_descriptor list"
  claim_status :: int

record MayaUsbDevice =
  dev_id :: MayaUsbDeviceId
  manufacturer :: string
  product :: string
  inEndpoint :: byte
  outEndpoint :: byte

text \<open>
  The loop over the endpoints of lines 85 to 95: each IN endpoint overwrites
  \<^verbatim>\<open>_inEndpoint\<close>, each OUT endpoint overwrites \<^verbatim>\<open>_outEndpoint\<close>. The pair is
  (\<^verbatim>\<open>_inEndpoint\<close>, \<^verbatim>\<open>_outEndpoint\<close>).
\<close>

fun enumerate_endpoints :: "endpoint_descriptor list \<Rightarrow> byte \<times> byte \<Rightarrow> byte \<times> byte" where
  "enumerate_endpoints [] (inEp, outEp) = (inEp, outEp)"
| "enumerate_endpoints (endpoint # rest) (inEp, outEp) =
     (let isIn = (bEndpointAddress endpoint AND 0x80 = LIBUSB_ENDPOINT_IN);
          isOut = (bEndpointAddress endpoint AND 0x80 = LIBUSB_ENDPOINT_OUT)
      in if isIn then enumerate_endpoints rest (bEndpointAddress endpoint, outEp)
         else if isOut then enumerate_endpoints rest (inEp, bEndpointAddress endpoint)
         else enumerate_endpoints rest (inEp, outEp))"

text \<open>
  The constructor. Its initialiser list does not mention \<^verbatim>\<open>_inEndpoint\<close> and
  \<^verbatim>\<open>_outEndpoint\<close>, and the class declares them without an initialiser, so the values
  they hold before the enumeration are not fixed by the source: \<open>in0\<close> and \<open>out0\<close>.
\<close>

definition MayaUsbDevice_new ::
  "usb_bus \<Rightarrow> MayaUsbDeviceId list \<Rightarrow> byte \<Rightarrow> byte \<Rightarrow> error + MayaUsbDevice" where
  "MayaUsbDevice_new bus ids in0 out0 =
     (case find (opens bus) ids of
        None \<Rightarrow> Inl (RuntimeError ''Could not create device with given VIDs/PIDs'')
      | Some ident \<Rightarrow>
          if descriptor_status bus < 0 then
            Inl (RuntimeError ''Could not get device descriptor'')
          else if manufacturer_status bus < 0 then
            Inl (RuntimeError ''Could not get manufacturer string'')
          else if product_status bus < 0 then
            Inl (RuntimeError ''Could not get product string'')
          else if config_status bus < 0 then
            Inl (RuntimeError ''Could not get configuration descriptor'')
          else
            (case enumerate_endpoints (endpoints bus) (in0, out0) of
               (inEp, outEp) \<Rightarrow>
                 if claim_status bus < 0 then Inl (RuntimeError ''Could not claim interface'')
                 else Inr \<lparr>dev_id = ident,
                           manufacturer = manufacturer_string bus,
                           product = product_string bus,
                           inEndpoint = inEp, outEndpoint = outEp\<rparr>))"

text \<open>
  The specification's reading of the enumeration, for comparison with the code: the first
  bulk endpoint of a direction, zero when there is none. In \<^verbatim>\<open>bmAttributes\<close> the two low
  bits give the transfer type, 2 for bulk.
\<close>

definition is_bulk :: "endpoint_descriptor \<Rightarrow> bool" where
  "is_bulk e = (bmAttributes e AND 0x03 = 2)"

definition is_in :: "endpoint_descriptor \<Rightarrow> bool" where
  "is_in e = (bEndpointAddress e AND 0x80 = 0x80)"

definition spec_first_bulk :: "bool \<Rightarrow> endpoint_descriptor list \<Rightarrow> byte" where
  "spec_first_bulk dir_in eps =
     (case filter (\<lambda>e. is_bulk e \<and> is_in e = dir_in) eps of
        [] \<Rightarrow> 0
      | e # _ \<Rightarrow> bEndpointAddress e)"

subsection \<open>Frame submission\<close>

datatype MRasterFormat = kR32G32B32A32_FLOAT | kR8G8B8A8_UNORM | kOtherFormat nat

record MTextureDescription =
  fWidth :: nat
  fHeight :: nat
  fFormat :: MRasterFormat

text \<open>
  The two functions of ImageUtils the device calls; each writes the staging buffer from
  the pixel data (arguments: data, width, height, the buffer as it is).
\<close>

record image_utils =
  decomposeCheckerboardStereoFloat :: "byte list \<Rightarrow> nat \<Rightarrow> nat \<Rightarrow> byte list \<Rightarrow> byte list"
  decomposeCheckerboardStereoUchar :: "byte list \<Rightarrow> nat \<Rightarrow> nat \<Rightarrow> byte list \<Rightarrow> byte list"

text \<open>The state shared by the submitting thread and the send loop, guarded by the mutex.\<close>

record frame_state =
  rgbImageBuffer :: "byte list"
  jpegBufferWidth :: nat
  jpegBufferHeight :: nat
  sendReady :: bool

text \<open>
  \<open>try_lock\<close> is what \<^verbatim>\<open>_sendMutex.try_lock()\<close> returns. The lock is released when the
  function leaves its scope, on every path.
\<close>

definition sendStereo ::
  "image_utils \<Rightarrow> bool \<Rightarrow> byte list \<Rightarrow> MTextureDescription \<Rightarrow> frame_state \<Rightarrow> bool \<times> frame_state" where
  "sendStereo utils try_lock pixels desc s =
     (if try_lock then
        (if \<not> sendReady s then
           (case (case fFormat desc of
                    kR32G32B32A32_FLOAT \<Rightarrow>
                      Some (decomposeCheckerboardStereoFloat utils pixels (fWidth desc)
                              (fHeight desc) (rgbImageBuffer s))
                  | kR8G8B8A8_UNORM \<Rightarrow>
                      Some (decomposeCheckerboardStereoUchar utils pixels (fWidth desc)
                              (fHeight desc) (rgbImageBuffer s))
                  | kOtherFormat _ \<Rightarrow> None) of
              None \<Rightarrow> (False, s)
            | Some rgb \<Rightarrow>
                (True, s\<lparr>rgbImageBuffer := rgb,
                         jpegBufferWidth := fWidth desc,
                         jpegBufferHeight := fHeight desc div 2,
                         sendReady := True\<rparr>))
         else (False, s))
      else (False, s))"

subsection \<open>Background workers\<close>

text \<open>
  A worker runs on its own thread; what it does is recorded as a trace of events, in
  order: each load of its cancellation flag with the value read, each bulk OUT transfer
  with the bytes handed to libusb, each store to a shared flag and each callback.
\<close>

datatype event =
    CancelLoad bool
  | BulkOut "byte list"
  | HandshakeStore bool
  | HandshakeCallback bool
  | ReadCallback "byte list option"
  | FailureCallback
  | SendReadyReset
  | CancelStore

text \<open>
  One bulk IN transfer as libusb reports it: the status returned, the count stored
  in \<^verbatim>\<open>read\<close> and the bytes received, which overwrite the start of the buffer.
\<close>

record in_transfer =
  xstatus :: int
  xread :: int
  xbytes :: "byte list"

definition receive :: "in_transfer \<Rightarrow> byte list \<Rightarrow> byte list" where
  "receive x buf = (let d = take (length buf) (xbytes x) in d @ drop (length d) buf)"

text \<open>
  \<^verbatim>\<open>flushInputBuffer\<close>: reads until a transfer returns a non-zero status. The transfers
  still to come are returned with the buffer; \<open>None\<close> when the transfers listed all
  returned zero, so the loop is still running at the end of the list.
\<close>

fun flush_loop :: "in_transfer list \<Rightarrow> byte list \<Rightarrow> (in_transfer list \<times> byte list) option" where
  "flush_loop [] buf = None"
| "flush_loop (x # xs) buf =
     (if xstatus x = 0 then flush_loop xs (receive x buf) else Some (xs, receive x buf))"

definition flushInputBuffer ::
  "byte \<Rightarrow> in_transfer list \<Rightarrow> byte list \<Rightarrow> (in_transfer list \<times> byte list) option" where
  "flushInputBuffer inEp xs buf = (if inEp \<noteq> 0 then flush_loop xs buf else Some (xs, buf))"

text \<open>
  The waiting loop of the handshake worker (lines 255 to 267). \<open>loads\<close> are the values
  the successive \<^verbatim>\<open>cancel->load()\<close> return, \<open>xs\<close> the transfers to come. The result is
  the trace, \<^verbatim>\<open>cancelled\<close>, \<^verbatim>\<open>status\<close>, \<^verbatim>\<open>read\<close> and the buffer.
\<close>

fun handshake_wait ::
  "bool list \<Rightarrow> in_transfer list \<Rightarrow> int \<Rightarrow> int \<Rightarrow> byte list \<Rightarrow>
   (event list \<times> bool \<times> int \<times> int \<times> byte list) option" where
  "handshake_wait [] xs status rd buf = None"
| "handshake_wait (c # cs) xs status rd buf =
     (if c then Some ([CancelLoad True], True, status, rd, buf)
      else if status \<noteq> LIBUSB_ERROR_TIMEOUT then Some ([CancelLoad False], False, status, rd, buf)
      else
        (case xs of
           [] \<Rightarrow> None
         | x # xs' \<Rightarrow>
             map_option (\<lambda>(evs, r). (CancelLoad False # evs, r))
               (handshake_wait cs xs' (xstatus x) (xread x) (receive x buf))))"

text \<open>
  The check of lines 274 to 282, from offset \<open>i\<close> on: it stops at the first byte that
  differs from \<^verbatim>\<open>(unsigned char) i\<close>.
\<close>

function handshake_scan :: "nat \<Rightarrow> byte list \<Rightarrow> bool" where
  "handshake_scan i buf =
     (if i < BUFFER_LEN then
        (if buf ! i \<noteq> (of_nat i :: byte) then False else handshake_scan (Suc i) buf)
      else True)"
  by pat_completeness auto
termination
  by (relation "measure (\<lambda>(i, buf). BUFFER_LEN - i)") auto

declare handshake_scan.simps [simp del]

definition handshake_success :: "int \<Rightarrow> byte list \<Rightarrow> bool" where
  "handshake_success rd buf = (if rd = int BUFFER_LEN then handshake_scan 0 buf else False)"


definition handshake_pattern :: "byte list" where
  "handshake_pattern = map of_nat [0..<BUFFER_LEN]"

text \<open>The worker up to the end of its waiting loop: flush, then wait.\<close>

definition handshake_receive ::
  "byte \<Rightarrow> bool list \<Rightarrow> in_transfer list \<Rightarrow> byte list \<Rightarrow>
   (event list \<times> bool \<times> int \<times> int \<times> byte list) option" where
  "handshake_receive inEp loads xs buf0 =
     (case flushInputBuffer inEp xs buf0 of
        None \<Rightarrow> None
      | Some (xs', buf) \<Rightarrow> handshake_wait loads xs' LIBUSB_ERROR_TIMEOUT 0 buf)"

text \<open>
  The whole worker body. \<open>buf0\<close> is the fresh \<^verbatim>\<open>new unsigned char[BUFFER_LEN]\<close>, whose
  content the source does not fix.
\<close>

definition handshake_worker ::
  "byte \<Rightarrow> bool list \<Rightarrow> in_transfer list \<Rightarrow> byte list \<Rightarrow> event list option" where
  "handshake_worker inEp loads xs buf0 =
     (case handshake_receive inEp loads xs buf0 of
        None \<Rightarrow> None
      | Some (evs, cancelled, status, rd, buf) \<Rightarrow>
          Some (evs
                @ (if cancelled then []
                   else (let success = handshake_success rd buf
                         in [HandshakeStore success, HandshakeCallback success]))
                @ [CancelStore]))"

text \<open>
  \<^verbatim>\<open>waitHandshakeAsync\<close>: the value returned and the trace of the worker it starts (the
  empty trace when it starts none).
\<close>

definition waitHandshakeAsync ::
  "byte \<Rightarrow> bool \<Rightarrow> bool list \<Rightarrow> in_transfer list \<Rightarrow> byte list \<Rightarrow> bool \<times> event list option" where
  "waitHandshakeAsync inEp handshake loads xs buf0 =
     (if inEp = 0 then (False, Some [])
      else if handshake then (False, Some [])
      else (True, handshake_worker inEp loads xs buf0))"

text \<open>The callbacks a trace makes, and the flags after it.\<close>

fun handshake_callbacks :: "event list \<Rightarrow> bool list" where
  "handshake_callbacks [] = []"
| "handshake_callbacks (HandshakeCallback b # evs) = b # handshake_callbacks evs"
| "handshake_callbacks (_ # evs) = handshake_callbacks evs"


text \<open>
  \<^verbatim>\<open>InterruptibleThread::isCancelled\<close> after a trace: the flag is only ever stored
  \<^verbatim>\<open>true\<close>, by \<^verbatim>\<open>cancel()\<close> from outside (\<open>c\<close>) or by the worker.
\<close>

fun isCancelled_after :: "bool \<Rightarrow> event list \<Rightarrow> bool" where
  "isCancelled_after c [] = c"
| "isCancelled_after c (CancelStore # evs) = isCancelled_after True evs"
| "isCancelled_after c (_ # evs) = isCancelled_after c evs"

text \<open>The read loop of \<^verbatim>\<open>beginReadLoop\<close> (lines 319 to 333) and its worker.\<close>

fun read_loop ::
  "bool list \<Rightarrow> in_transfer list \<Rightarrow> int \<Rightarrow> byte list \<Rightarrow> (event list \<times> bool \<times> int) option" where
  "read_loop [] xs status buf = None"
| "read_loop (c # cs) xs status buf =
     (if c then Some ([CancelLoad True], True, status)
      else if \<not> (status = 0 \<or> status = LIBUSB_ERROR_TIMEOUT) then
        Some ([CancelLoad False], False, status)
      else
        (case xs of
           [] \<Rightarrow> None
         | x # xs' \<Rightarrow>
             map_option
               (\<lambda>(evs, r).
                  (CancelLoad False
                   # (if xstatus x = 0 then [ReadCallback (Some (receive x buf))] else [])
                   @ evs, r))
               (read_loop cs xs' (xstatus x) (receive x buf))))"

definition read_worker :: "bool list \<Rightarrow> in_transfer list \<Rightarrow> byte list \<Rightarrow> event list option" where
  "read_worker loads xs buf0 =
     (case read_loop loads xs LIBUSB_ERROR_TIMEOUT buf0 of
        None \<Rightarrow> None
      | Some (evs, cancelled, status) \<Rightarrow>
          Some (evs @ (if \<not> cancelled then [ReadCallback None] else []) @ [CancelStore]))"

definition beginReadLoop ::
  "byte \<Rightarrow> bool \<Rightarrow> bool list \<Rightarrow> in_transfer list \<Rightarrow> byte list \<Rightarrow> bool \<times> event list option" where
  "beginReadLoop inEp handshake loads xs buf0 =
     (if inEp = 0 then (False, Some [])
      else if \<not> handshake then (False, Some [])
      else (True, read_worker loads xs buf0))"

subsection \<open>The send loop\<close>

text \<open>
  Modelled from the spec: \<^verbatim>\<open>EndianUtils::nativeToBig\<close> (EndianUtils.h is not among the
  sources), which "converts a length field to a fixed wire byte order", big-endian on the
  wire. These are the four bytes at \<^verbatim>\<open>&header\<close> that the loop hands to the bulk transfer,
  most significant first.
\<close>

definition nativeToBig_bytes :: "32 word \<Rightarrow> byte list" where
  "nativeToBig_bytes v =
     [ucast (drop_bit 24 v), ucast (drop_bit 16 v), ucast (drop_bit 8 v), ucast v]"

text \<open>How a receiver reads a big-endian length back from four bytes.\<close>

fun big_endian_value :: "byte list \<Rightarrow> nat" where
  "big_endian_value [] = 0"
| "big_endian_value (b # bs) = unat b * 256 ^ length bs + big_endian_value bs"

text \<open>
  The chunk loop of lines 418 to 433. \<open>written k\<close> is the count libusb stores in
  \<^verbatim>\<open>written\<close> for the worker's \<open>k\<close>-th bulk OUT transfer; \<open>n\<close> counts the transfers made
  so far. The result is the list of buffers handed to libusb, \<^verbatim>\<open>error\<close> and the new
  count. The source's counter \<^verbatim>\<open>i\<close> is an \<^verbatim>\<open>int\<close>; it is a natural number here, which
  is exact for a payload shorter than \<open>2 ^ 31\<close> bytes.
\<close>

function send_chunks ::
  "(nat \<Rightarrow> int) \<Rightarrow> nat \<Rightarrow> byte list \<Rightarrow> nat \<Rightarrow> byte list list \<times> bool \<times> nat" where
  "send_chunks written n jpeg i =
     (if i < length jpeg then
        (let chunk = min BUFFER_LEN (length jpeg - i);
             req = take chunk (drop i jpeg)
         in if written n < int chunk then ([req], True, Suc n)
            else (case send_chunks written (Suc n) jpeg (i + BUFFER_LEN) of
                    (reqs, error, n') \<Rightarrow> (req # reqs, error, n')))
      else ([], False, n))"
  by pat_completeness auto
termination
  by (relation "measure (\<lambda>(written, n, jpeg, i). length jpeg - i)")
     (auto simp: BUFFER_LEN_def)

declare send_chunks.simps [simp del]

text \<open>
  The payload cut into consecutive pieces of \<open>BUFFER_LEN\<close> bytes, the last one with what
  remains: what the specification calls the chunks of a frame.
\<close>

function payload_chunks :: "byte list \<Rightarrow> byte list list" where
  "payload_chunks bytes =
     (if bytes = [] then []
      else take BUFFER_LEN bytes # payload_chunks (drop BUFFER_LEN bytes))"
  by pat_completeness auto
termination
  by (relation "measure length") (auto simp: BUFFER_LEN_def)

declare payload_chunks.simps [simp del]

text \<open>
  One frame (lines 401 to 434): the header, then the chunks. The header is
  \<^verbatim>\<open>(uint32_t)_jpegBufferSize\<close>. In \<^verbatim>\<open>written < sizeof(header)\<close> the \<^verbatim>\<open>int\<close> is converted
  to \<^verbatim>\<open>size_t\<close>, so a negative count does not compare as smaller.
\<close>

definition send_frame ::
  "(nat \<Rightarrow> int) \<Rightarrow> nat \<Rightarrow> byte list \<Rightarrow> byte list list \<times> bool \<times> nat" where
  "send_frame written n jpeg =
     (let header = nativeToBig_bytes (of_nat (length jpeg))
      in if 0 \<le> written n \<and> written n < 4 then ([header], True, Suc n)
         else (case send_chunks written (Suc n) jpeg 0 of
                 (reqs, error, n') \<Rightarrow> (header # reqs, error, n')))"

text \<open>
  What the worker finds each time its wait returns: cancellation, or a staged frame (the
  staging buffer with the width and height recorded for it).
\<close>

datatype wake = WakeCancelled | WakeFrame "byte list" nat nat

text \<open>
  The loop of the send worker (lines 364 to 446). \<open>compress\<close> stands for
  \<^verbatim>\<open>tjCompress2\<close> and gives the bytes of \<^verbatim>\<open>_jpegBuffer\<close>, \<^verbatim>\<open>_jpegBufferSize\<close> of them.
  \<open>None\<close>: the worker is still waiting when the list of wake-ups ends.
\<close>

fun send_loop ::
  "(byte list \<Rightarrow> nat \<Rightarrow> nat \<Rightarrow> byte list) \<Rightarrow> (nat \<Rightarrow> int) \<Rightarrow> nat \<Rightarrow> wake list \<Rightarrow>
   event list option" where
  "send_loop compress written n [] = None"
| "send_loop compress written n (WakeCancelled # ws) =
     Some [CancelLoad True, BulkOut [0, 0, 0, 0]]"
| "send_loop compress written n (WakeFrame rgb w h # ws) =
     (case send_frame written n (compress rgb w h) of
        (reqs, error, n') \<Rightarrow>
          if error then Some (CancelLoad False # map BulkOut reqs @ [FailureCallback])
          else map_option (\<lambda>evs. CancelLoad False # map BulkOut reqs @ SendReadyReset # evs)
                 (send_loop compress written n' ws))"

definition send_worker ::
  "(byte list \<Rightarrow> nat \<Rightarrow> nat \<Rightarrow> byte list) \<Rightarrow> (nat \<Rightarrow> int) \<Rightarrow> wake list \<Rightarrow> event list option" where
  "send_worker compress written ws =
     map_option (\<lambda>evs. evs @ [CancelStore]) (send_loop compress written 0 ws)"

definition beginSendLoop ::
  "byte \<Rightarrow> bool \<Rightarrow> (byte list \<Rightarrow> nat \<Rightarrow> nat \<Rightarrow> byte list) \<Rightarrow> (nat \<Rightarrow> int) \<Rightarrow> wake list \<Rightarrow>
   bool \<times> event list option" where
  "beginSendLoop outEp handshake compress written ws =
     (if outEp = 0 then (False, Some [])
      else if \<not> handshake then (False, Some [])
      else (True, map_option ((#) SendReadyReset) (send_worker compress written ws)))"

text \<open>Two transfers used to exhibit runs: a timeout, and the full handshake pattern.\<close>

definition timeout_transfer :: in_transfer where
  "timeout_transfer = \<lparr>xstatus = LIBUSB_ERROR_TIMEOUT, xread = 0, xbytes = []\<rparr>"

definition pattern_transfer :: in_transfer where
  "pattern_transfer = \<lparr>xstatus = 0, xread = int BUFFER_LEN, xbytes = handshake_pattern\<rparr>"

text \<open>
  A device used to exhibit a construction: it opens as the second AOAP identity and has
  two bulk endpoints in each direction.
\<close>

definition example_bus :: usb_bus where
  "example_bus =
     \<lparr>opens = (\<lambda>ident. vid ident = 0x18D1 \<and> pid ident = 0x2D01),
      descriptor_status = 0,
      manufacturer_status = 4, manufacturer_string = ''Acme'',
      product_status = 6, product_string = ''Gadget'',
      config_status = 0,
      endpoints = [\<lparr>bEndpointAddress = 0x81, bmAttributes = 2\<rparr>,
                   \<lparr>bEndpointAddress = 0x02, bmAttributes = 2\<rparr>,
                   \<lparr>bEndpointAddress = 0x83, bmAttributes = 2\<rparr>,
                   \<lparr>bEndpointAddress = 0x04, bmAttributes = 2\<rparr>],
      claim_status = 0\<rparr>"

text \<open>Image utilities and frame states used to exhibit submissions.\<close>

definition copy_utils :: image_utils where
  "copy_utils =
     \<lparr>decomposeCheckerboardStereoFloat = (\<lambda>pixels w h rgb. pixels),
      decomposeCheckerboardStereoUchar = (\<lambda>pixels w h rgb. pixels)\<rparr>"

definition idle_frame_state :: frame_state where
  "idle_frame_state =
     \<lparr>rgbImageBuffer = [], jpegBufferWidth = 0, jpegBufferHeight = 0, sendReady = False\<rparr>"

definition staged_frame_state :: frame_state where
  "staged_frame_state =
     \<lparr>rgbImageBuffer = [1, 2, 3], jpegBufferWidth = 4, jpegBufferHeight = 1,
      sendReady = True\<rparr>"

text \<open>
  An OUT endpoint used to exhibit runs: it takes the 4 bytes of the first transfer and
  all the bytes of the later ones.
\<close>

definition example_written :: "nat \<Rightarrow> int" where
  "example_written k = (if k = 0 then 4 else if k = 1 then 16384 else 3616)"

text \<open>
  Two endpoints that fall short: one takes 2 of the 4 header bytes, the other takes the
  header and the first chunk whole and 100 bytes of the second chunk.
\<close>

definition short_header_written :: "nat \<Rightarrow> int" where
  "short_header_written k = 2"

definition short_chunk_written :: "nat \<Rightarrow> int" where
  "short_chunk_written k = (if k = 0 then 4 else if k = 1 then 16384 else 100)"

section \<open>Properties\<close>

subsection \<open>The accessory conversion\<close>

lemma get_request_51: "get_request 51 = vendor_in 51 2"
  by (simp add: get_request_def vendor_in_def LIBUSB_ENDPOINT_IN_def
      LIBUSB_REQUEST_TYPE_VENDOR_def)

lemma send_request_53: "send_request 53 = vendor_out 53 0 []"
  by (simp add: send_request_def vendor_out_def LIBUSB_ENDPOINT_OUT_def
      LIBUSB_REQUEST_TYPE_VENDOR_def)

lemma string_request_short:
  "length s \<le> 256 \<Longrightarrow> string_request r i s = vendor_out r i s"
  by (simp add: string_request_def vendor_out_def LIBUSB_ENDPOINT_OUT_def
      LIBUSB_REQUEST_TYPE_VENDOR_def)

lemmas run_simps = convertToAccessory_def then_do_def getControlInt16_def
  sendControlString_def sendControl_def get_request_51 send_request_53
  string_request_short Let_def

lemma convert_unsupported:
  "0 \<le> ctl_status dev (vendor_in 51 2) \<Longrightarrow> sint (ctl_int16 dev) < 1 \<Longrightarrow>
   convertToAccessory dev = ([vendor_in 51 2], Inl ProtocolUnsupported)"
  by (simp add: run_simps)

lemma convert_ok:
  "\<forall>t \<in> set aoap_sequence. 0 \<le> ctl_status dev t \<Longrightarrow> 1 \<le> sint (ctl_int16 dev) \<Longrightarrow>
   convertToAccessory dev = (aoap_sequence, Inr ())"
  by (simp add: run_simps aoap_sequence_def)

lemma convert_abort:
  assumes "k < length aoap_sequence"
    and "\<forall>t \<in> set (take k aoap_sequence). 0 \<le> ctl_status dev t"
    and "ctl_status dev (aoap_sequence ! k) < 0"
    and "0 < k \<longrightarrow> 1 \<le> sint (ctl_int16 dev)"
  shows "convertToAccessory dev =
           (take (Suc k) aoap_sequence,
            Inl (if k = 0 then ControlReadError else ControlTransferError))"
proof -
  from assms(1) consider "k = 0" | "k = 1" | "k = 2" | "k = 3" | "k = 4" | "k = 5"
    | "k = 6" | "k = 7"
    by (simp add: aoap_sequence_def) arith
  then show ?thesis
  proof cases
    case 1 with assms show ?thesis by (simp add: run_simps aoap_sequence_def)
  next
    case 2 with assms show ?thesis by (simp add: run_simps aoap_sequence_def)
  next
    case 3 with assms show ?thesis by (simp add: run_simps aoap_sequence_def)
  next
    case 4 with assms show ?thesis by (simp add: run_simps aoap_sequence_def)
  next
    case 5 with assms show ?thesis by (simp add: run_simps aoap_sequence_def)
  next
    case 6 with assms show ?thesis by (simp add: run_simps aoap_sequence_def)
  next
    case 7 with assms show ?thesis by (simp add: run_simps aoap_sequence_def)
  next
    case 8 with assms show ?thesis by (simp add: run_simps aoap_sequence_def)
  qed
qed

text \<open>
  C4. \<open>convertToAccessory\<close> raises \<open>ProtocolUnsupported\<close>, having issued the version
  request only, when the version read is below 1. Otherwise, when every transfer
  succeeds, it issues the version request, the six string requests (request 52, indices
  0 to 5, with the manufacturer, model, description, version, URI and serial literals)
  and one start request (request 53, no payload), in this order, and raises nothing. When
  the transfer at position \<open>k\<close> is the first to fail, the transfers issued are exactly
  those up to position \<open>k\<close> and an error is raised.
\<close>

theorem convertToAccessory_sequence:
  "(0 \<le> ctl_status dev (vendor_in 51 2) \<and> sint (ctl_int16 dev) < 1 \<longrightarrow>
      convertToAccessory dev = ([vendor_in 51 2], Inl ProtocolUnsupported))
   \<and> ((\<forall>t \<in> set aoap_sequence. 0 \<le> ctl_status dev t) \<and> 1 \<le> sint (ctl_int16 dev) \<longrightarrow>
      convertToAccessory dev = (aoap_sequence, Inr ()))
   \<and> (k < length aoap_sequence
        \<and> (\<forall>t \<in> set (take k aoap_sequence). 0 \<le> ctl_status dev t)
        \<and> ctl_status dev (aoap_sequence ! k) < 0
        \<and> (0 < k \<longrightarrow> 1 \<le> sint (ctl_int16 dev)) \<longrightarrow>
      convertToAccessory dev =
        (take (Suc k) aoap_sequence,
         Inl (if k = 0 then ControlReadError else ControlTransferError)))"
  using convert_unsupported [of dev] convert_ok [of dev] convert_abort [of k dev]
  by blast

theorem convertToAccessory_sequence_witness:
  "convertToAccessory \<lparr>ctl_status = (\<lambda>t. 0), ctl_int16 = 2\<rparr> = (aoap_sequence, Inr ())
   \<and> convertToAccessory \<lparr>ctl_status = (\<lambda>t. 0), ctl_int16 = 0\<rparr>
       = ([vendor_in 51 2], Inl ProtocolUnsupported)
   \<and> convertToAccessory
        \<lparr>ctl_status = (\<lambda>t. if wIndex t = 3 then - 1 else 0), ctl_int16 = 2\<rparr>
       = ([vendor_in 51 2,
           vendor_out 52 0 ''SiriusCybernetics'',
           vendor_out 52 1 ''MayaUsb'',
           vendor_out 52 2 ''Maya USB streaming'',
           vendor_out 52 3 ''0.42''], Inl ControlTransferError)"
  using convertToAccessory_sequence [of "\<lparr>ctl_status = (\<lambda>t. 0), ctl_int16 = 2\<rparr>" 0]
    convertToAccessory_sequence [of "\<lparr>ctl_status = (\<lambda>t. 0), ctl_int16 = 0\<rparr>" 0]
    convertToAccessory_sequence
      [of "\<lparr>ctl_status = (\<lambda>t. if wIndex t = 3 then - 1 else 0), ctl_int16 = 2\<rparr>" 4]
  by (simp add: aoap_sequence_def vendor_in_def vendor_out_def)

lemma convert_issues_subset:
  "set (fst (convertToAccessory dev)) \<subseteq> set aoap_sequence"
  by (simp add: run_simps aoap_sequence_def)

lemma aoap_sequence_lengths:
  "t \<in> set aoap_sequence \<Longrightarrow> bRequest t = 52 \<Longrightarrow>
   unat (wLength t) = length (payload t) \<and> unat (wLength t) \<le> 255"
  by (auto simp: aoap_sequence_def vendor_in_def vendor_out_def)

lemma unat_length16: "n < 65536 \<Longrightarrow> unat (of_nat n :: 16 word) = n"
  by (simp add: unat_of_nat)

lemma string_request_short_length:
  "length str \<le> 255 \<Longrightarrow>
   payload (string_request request index str) = str
   \<and> unat (wLength (string_request request index str)) = length str"
  by (simp add: string_request_def unat_length16)

text \<open>
  C6 (as amended). For a string of at most 255 bytes \<open>sendControlString\<close> issues one
  transfer whose buffer holds the whole string and whose announced length is the length
  of the string, so at most 255 and equal to the bytes copied. For a string of any length
  the bytes copied are at most 256. Every string transfer (request 52) that
  \<open>convertToAccessory\<close> issues, whatever the device answers, announces the bytes copied
  and at most 255 of them.
\<close>

theorem sendControlString_bounded_strings:
  "(length str \<le> 255 \<longrightarrow>
      fst (sendControlString dev request index str) = [string_request request index str]
      \<and> payload (string_request request index str) = str
      \<and> unat (wLength (string_request request index str)) = length str
      \<and> unat (wLength (string_request request index str)) \<le> 255)
   \<and> length (payload (string_request request index str)) \<le> 256
   \<and> (\<forall>t \<in> set (fst (convertToAccessory dev)).
        bRequest t = 52 \<longrightarrow>
          unat (wLength t) = length (payload t) \<and> unat (wLength t) \<le> 255)"
proof (intro conjI impI ballI)
  assume s: "length str \<le> 255"
  show "fst (sendControlString dev request index str) = [string_request request index str]"
    by (simp add: sendControlString_def Let_def)
  from string_request_short_length [OF s, of request index]
  show "payload (string_request request index str) = str"
    and "unat (wLength (string_request request index str)) = length str"
    by simp_all
  with s show "unat (wLength (string_request request index str)) \<le> 255" by simp
next
  show "length (payload (string_request request index str)) \<le> 256"
    by (simp add: string_request_def)
next
  fix t assume "t \<in> set (fst (convertToAccessory dev))" and r: "bRequest t = 52"
  with convert_issues_subset [of dev] have "t \<in> set aoap_sequence" by blast
  from aoap_sequence_lengths [OF this r]
  show "unat (wLength t) = length (payload t)" and "unat (wLength t) \<le> 255" by simp_all
qed

text \<open>
  C6 (as stated) fails for strings of any length: for a string of 300 characters
  \<open>sendControlString\<close> copies 256 bytes into its buffer and announces 300 to the control
  transfer, and for a string of 256 characters it announces 256. The length handed over
  is the length of the string, with no cap.
\<close>

theorem sendControlString_length_not_capped:
  "fst (sendControlString \<lparr>ctl_status = (\<lambda>t. 0), ctl_int16 = 2\<rparr> 52 0
          (replicate 300 (CHR ''a'')))
     = [string_request 52 0 (replicate 300 (CHR ''a''))]
   \<and> length (payload (string_request 52 0 (replicate 300 (CHR ''a'')))) = 256
   \<and> unat (wLength (string_request 52 0 (replicate 300 (CHR ''a'')))) = 300
   \<and> unat (wLength (string_request 52 0 (replicate 256 (CHR ''a'')))) = 256"
  by (simp add: sendControlString_def string_request_def Let_def)

theorem sendControlString_bounded_strings_witness:
  "fst (sendControlString \<lparr>ctl_status = (\<lambda>t. 0), ctl_int16 = 2\<rparr> 52 0 ''SiriusCybernetics'')
     = [vendor_out 52 0 ''SiriusCybernetics'']
   \<and> unat (wLength (vendor_out 52 0 ''SiriusCybernetics'')) = 17
   \<and> unat (wLength (vendor_out 52 4 ''https://sdao.me''))
       = length (payload (vendor_out 52 4 ''https://sdao.me''))"
proof -
  let ?dev = "\<lparr>ctl_status = (\<lambda>t. 0), ctl_int16 = 2\<rparr>"
  have run: "fst (convertToAccessory ?dev) = aoap_sequence"
    using convert_ok [of ?dev] by simp
  have mem: "vendor_out 52 4 ''https://sdao.me'' \<in> set (fst (convertToAccessory ?dev))"
    unfolding run by (simp add: aoap_sequence_def)
  have req: "bRequest (vendor_out 52 4 ''https://sdao.me'') = 52"
    by (simp add: vendor_out_def)
  have short: "string_request 52 0 ''SiriusCybernetics'' = vendor_out 52 0 ''SiriusCybernetics''"
    by (simp add: string_request_short)
  from sendControlString_bounded_strings
      [where str = "''SiriusCybernetics''" and dev = ?dev and request = 52 and index = 0]
    mem req short
  show ?thesis by auto
qed

lemma high_bit_sint: "0x8000 \<le> (v::16 word) \<Longrightarrow> sint v < 0"
proof -
  assume a: "0x8000 \<le> v"
  have lo: "32768 \<le> uint v" using a by (simp add: word_le_def)
  have hi: "uint v < 65536" using uint_lt2p [of v] by simp
  have "uint v div 2 ^ 15 = 1" using lo hi by simp
  then have "bit (uint v) 15" by (simp add: bit_iff_odd)
  then show ?thesis by (simp add: sint_uint)
qed

text \<open>
  C9. The version is read through an \<^verbatim>\<open>int16_t\<close>: a reported value with the high bit set
  (0x8000 to 0xFFFF) is negative as read, although it is at least 1 as an unsigned
  number, and the conversion is rejected as unsupported after the version request alone.
\<close>

theorem convertToAccessory_signed_version:
  "0x8000 \<le> ctl_int16 dev \<Longrightarrow> 0 \<le> ctl_status dev (get_request 51) \<Longrightarrow>
   sint (ctl_int16 dev) < 0 \<and> 1 \<le> uint (ctl_int16 dev)
   \<and> convertToAccessory dev = ([get_request 51], Inl ProtocolUnsupported)"
proof -
  assume hi: "0x8000 \<le> ctl_int16 dev" and ok: "0 \<le> ctl_status dev (get_request 51)"
  have neg: "sint (ctl_int16 dev) < 0" using hi by (rule high_bit_sint)
  have pos: "1 \<le> uint (ctl_int16 dev)" using hi by (simp add: word_le_def)
  have "convertToAccessory dev = ([get_request 51], Inl ProtocolUnsupported)"
    using neg ok by (simp add: convertToAccessory_def then_do_def getControlInt16_def Let_def)
  with neg pos show ?thesis by simp
qed

theorem convertToAccessory_signed_version_witness:
  "sint (0xFFFF :: 16 word) < 0 \<and> 1 \<le> uint (0xFFFF :: 16 word)
   \<and> convertToAccessory \<lparr>ctl_status = (\<lambda>t. 0), ctl_int16 = 0xFFFF\<rparr>
       = ([get_request 51], Inl ProtocolUnsupported)"
  using convertToAccessory_signed_version [of "\<lparr>ctl_status = (\<lambda>t. 0), ctl_int16 = 0xFFFF\<rparr>"]
  by simp

subsection \<open>The handshake worker\<close>









lemma pattern_length: "length handshake_pattern = BUFFER_LEN"
  by (simp add: handshake_pattern_def)




lemma handshake_wait_events:
  "handshake_wait cs xs st rd buf = Some (evs, c, r) \<Longrightarrow>
   evs = map CancelLoad (replicate (length evs - 1) False @ [c]) \<and> evs \<noteq> []"
proof (induction cs xs st rd buf arbitrary: evs rule: handshake_wait.induct)
  case (1 xs status rd buf)
  then show ?case by simp
next
  case (2 b cs xs status rd buf)
  show ?case
  proof (cases "b \<or> status \<noteq> LIBUSB_ERROR_TIMEOUT")
    case True
    with "2.prems" show ?thesis by (auto split: if_splits)
  next
    case False
    with "2.prems" obtain x xs' evs' where xs: "xs = x # xs'"
      and rec: "handshake_wait cs xs' (xstatus x) (xread x) (receive x buf) = Some (evs', c, r)"
      and evs: "evs = CancelLoad False # evs'"
      by (auto split: list.splits)
    from "2.IH" [OF _ _ xs rec] False
    have ih: "evs' = map CancelLoad (replicate (length evs' - 1) False @ [c]) \<and> evs' \<noteq> []"
      by simp
    then have "length evs' - 1 + 1 = length evs'" by (cases evs') simp_all
    then have "replicate (length evs - 1) False = False # replicate (length evs' - 1) False"
      using evs by (cases evs') simp_all
    with ih evs show ?thesis by simp
  qed
qed


lemma handshake_callbacks_append:
  "handshake_callbacks (xs @ ys) = handshake_callbacks xs @ handshake_callbacks ys"
  by (induction xs rule: handshake_callbacks.induct) simp_all


lemma handshake_callbacks_loads: "handshake_callbacks (map CancelLoad bs) = []"
  by (induction bs) simp_all

lemma handshake_receive_events:
  "handshake_receive ep cs xs buf0 = Some (evs, c, r) \<Longrightarrow>
   evs = map CancelLoad (replicate (length evs - 1) False @ [c])"
  by (auto simp: handshake_receive_def dest: handshake_wait_events split: option.splits)


lemma handshake_wait_cancelled:
  "n \<le> length xs \<Longrightarrow> \<forall>x \<in> set (take n xs). xstatus x = LIBUSB_ERROR_TIMEOUT \<Longrightarrow>
   \<exists>rd' buf'. handshake_wait (replicate n False @ True # later) xs LIBUSB_ERROR_TIMEOUT rd buf
     = Some (map CancelLoad (replicate n False) @ [CancelLoad True], True,
             LIBUSB_ERROR_TIMEOUT, rd', buf')"
proof (induction n arbitrary: xs rd buf)
  case 0
  then show ?case by simp
next
  case (Suc n)
  then obtain x xs' where xs: "xs = x # xs'" by (cases xs) auto
  with Suc.prems have st: "xstatus x = LIBUSB_ERROR_TIMEOUT"
    and len: "n \<le> length xs'"
    and rest: "\<forall>x \<in> set (take n xs'). xstatus x = LIBUSB_ERROR_TIMEOUT"
    by auto
  from Suc.IH [OF len rest, of "xread x" "receive x buf"] obtain rd' buf' where
    "handshake_wait (replicate n False @ True # later) xs' LIBUSB_ERROR_TIMEOUT (xread x)
       (receive x buf)
     = Some (map CancelLoad (replicate n False) @ [CancelLoad True], True,
             LIBUSB_ERROR_TIMEOUT, rd', buf')"
    by blast
  with xs st show ?case by simp
qed

lemma handshake_wait_data:
  "n < length xs \<Longrightarrow> \<forall>x \<in> set (take n xs). xstatus x = LIBUSB_ERROR_TIMEOUT \<Longrightarrow>
   xstatus (xs ! n) \<noteq> LIBUSB_ERROR_TIMEOUT \<Longrightarrow>
   handshake_wait (replicate (Suc (Suc n)) False @ later) xs LIBUSB_ERROR_TIMEOUT rd buf
     = Some (map CancelLoad (replicate (Suc (Suc n)) False), False,
             xstatus (xs ! n), xread (xs ! n), fold receive (take (Suc n) xs) buf)"
proof (induction n arbitrary: xs rd buf)
  case 0
  then obtain x xs' where xs: "xs = x # xs'" by (cases xs) auto
  with 0 show ?case by simp
next
  case (Suc n)
  then obtain x xs' where xs: "xs = x # xs'" by (cases xs) auto
  with Suc.prems have st: "xstatus x = LIBUSB_ERROR_TIMEOUT"
    and len: "n < length xs'"
    and rest: "\<forall>x \<in> set (take n xs'). xstatus x = LIBUSB_ERROR_TIMEOUT"
    and fin: "xstatus (xs' ! n) \<noteq> LIBUSB_ERROR_TIMEOUT"
    by auto
  from Suc.IH [OF len rest fin, of "xread x" "receive x buf"] xs st
  show ?case by simp
qed

lemma handshake_worker_of_receive:
  "handshake_receive inEp loads xs buf0 = Some (evs, cancelled, status, rd, buf) \<Longrightarrow>
   handshake_worker inEp loads xs buf0 =
     Some (evs @ (if cancelled then []
                  else [HandshakeStore (handshake_success rd buf),
                        HandshakeCallback (handshake_success rd buf)]) @ [CancelStore])"
  by (simp add: handshake_worker_def Let_def)


lemma receive_timeout: "receive timeout_transfer buf = buf"
  by (simp add: receive_def timeout_transfer_def)

lemma receive_pattern:
  "length buf = BUFFER_LEN \<Longrightarrow> receive pattern_transfer buf = handshake_pattern"
  by (simp add: receive_def pattern_transfer_def pattern_length)

lemma handshake_receive_example:
  "handshake_receive 0x81 [False, False] [timeout_transfer, pattern_transfer]
     (replicate BUFFER_LEN 0)
   = Some ([CancelLoad False, CancelLoad False], False, 0, int BUFFER_LEN, handshake_pattern)"
proof -
  have t: "xstatus timeout_transfer = LIBUSB_ERROR_TIMEOUT"
    and p: "xstatus pattern_transfer = 0" "xread pattern_transfer = int BUFFER_LEN"
    by (simp_all add: timeout_transfer_def pattern_transfer_def)
  have nz: "LIBUSB_ERROR_TIMEOUT \<noteq> 0" by (simp add: LIBUSB_ERROR_TIMEOUT_def)
  show ?thesis
    using nz by (simp add: handshake_receive_def flushInputBuffer_def t p receive_timeout receive_pattern)
qed


lemma handshake_worker_cancelled_run:
  assumes "flushInputBuffer inEp xs buf0 = Some (xs', buf1)" and "n \<le> length xs'"
    and "\<forall>x \<in> set (take n xs'). xstatus x = LIBUSB_ERROR_TIMEOUT"
  shows "handshake_worker inEp (replicate n False @ True # later) xs buf0
     = Some (map CancelLoad (replicate n False) @ [CancelLoad True, CancelStore])"
proof -
  from handshake_wait_cancelled [OF assms(2,3), of later 0 buf1] obtain rd' buf' where
    "handshake_wait (replicate n False @ True # later) xs' LIBUSB_ERROR_TIMEOUT 0 buf1
     = Some (map CancelLoad (replicate n False) @ [CancelLoad True], True,
             LIBUSB_ERROR_TIMEOUT, rd', buf')"
    by blast
  with assms(1) show ?thesis
    by (simp add: handshake_worker_def handshake_receive_def)
qed

lemma handshake_worker_data_run:
  assumes "flushInputBuffer inEp xs buf0 = Some (xs', buf1)" and "n < length xs'"
    and "\<forall>x \<in> set (take n xs'). xstatus x = LIBUSB_ERROR_TIMEOUT"
    and "xstatus (xs' ! n) \<noteq> LIBUSB_ERROR_TIMEOUT"
  shows "handshake_worker inEp (replicate (Suc (Suc n)) False @ later) xs buf0
     = Some (map CancelLoad (replicate (Suc (Suc n)) False)
             @ [HandshakeStore
                  (handshake_success (xread (xs' ! n)) (fold receive (take (Suc n) xs') buf1)),
                HandshakeCallback
                  (handshake_success (xread (xs' ! n)) (fold receive (take (Suc n) xs') buf1)),
                CancelStore])"
  using handshake_wait_data [OF assms(2,3,4), of later 0 buf1] assms(1)
  by (simp add: handshake_worker_def handshake_receive_def Let_def del: replicate.simps)

lemma handshake_worker_callbacks:
  assumes "handshake_receive inEp loads xs buf0 = Some (evs, cancelled, status, rd, buf)"
  shows "map_option handshake_callbacks (handshake_worker inEp loads xs buf0)
           = Some (if cancelled then [] else [handshake_success rd buf])"
    and "cancelled \<longleftrightarrow> CancelLoad True \<in> set evs"
proof -
  from handshake_receive_events [OF assms]
  have evs: "evs = map CancelLoad (replicate (length evs - 1) False @ [cancelled])" .
  then have "handshake_callbacks evs = []"
    using handshake_callbacks_loads by metis
  then show "map_option handshake_callbacks (handshake_worker inEp loads xs buf0)
           = Some (if cancelled then [] else [handshake_success rd buf])"
    by (simp add: handshake_worker_of_receive [OF assms] handshake_callbacks_append)
  have "CancelLoad True \<in> set (map CancelLoad (replicate (length evs - 1) False @ [cancelled]))
          \<longleftrightarrow> cancelled"
    by auto
  with evs show "cancelled \<longleftrightarrow> CancelLoad True \<in> set evs" by simp
qed

text \<open>
  C8. Whenever the worker's waiting loop returns, the callbacks of the whole run are none
  if the loop saw the cancellation flag set and exactly one, with the result of the check,
  otherwise. A worker whose flag is read set after \<open>n\<close> timed-out reads returns without a
  callback; a worker whose read number \<open>n\<close> is the first not to time out, and which is
  not cancelled, returns after one store of the result and one callback with it.
\<close>

theorem handshake_worker_callback:
  "(handshake_receive inEp loads xs buf0 = Some (evs, cancelled, status, rd, buf) \<longrightarrow>
      map_option handshake_callbacks (handshake_worker inEp loads xs buf0)
        = Some (if cancelled then [] else [handshake_success rd buf])
      \<and> (cancelled \<longleftrightarrow> CancelLoad True \<in> set evs))
   \<and> (flushInputBuffer inEp xs buf0 = Some (xs', buf1) \<and> n \<le> length xs'
        \<and> (\<forall>x \<in> set (take n xs'). xstatus x = LIBUSB_ERROR_TIMEOUT) \<longrightarrow>
      handshake_worker inEp (replicate n False @ True # later) xs buf0
        = Some (map CancelLoad (replicate n False) @ [CancelLoad True, CancelStore]))
   \<and> (flushInputBuffer inEp xs buf0 = Some (xs', buf1) \<and> n < length xs'
        \<and> (\<forall>x \<in> set (take n xs'). xstatus x = LIBUSB_ERROR_TIMEOUT)
        \<and> xstatus (xs' ! n) \<noteq> LIBUSB_ERROR_TIMEOUT \<longrightarrow>
      handshake_worker inEp (replicate (Suc (Suc n)) False @ later) xs buf0
        = Some (map CancelLoad (replicate (Suc (Suc n)) False)
                @ [HandshakeStore
                     (handshake_success (xread (xs' ! n))
                        (fold receive (take (Suc n) xs') buf1)),
                   HandshakeCallback
                     (handshake_success (xread (xs' ! n))
                        (fold receive (take (Suc n) xs') buf1)),
                   CancelStore]))"
  using handshake_worker_callbacks [of inEp loads xs buf0 evs cancelled status rd buf]
    handshake_worker_cancelled_run [of inEp xs buf0 xs' buf1 n later]
    handshake_worker_data_run [of inEp xs buf0 xs' buf1 n later]
  by blast

lemma flush_example:
  "flushInputBuffer 0x81 (timeout_transfer # xs) buf = Some (xs, buf)"
proof -
  have "xstatus timeout_transfer \<noteq> 0"
    by (simp add: timeout_transfer_def LIBUSB_ERROR_TIMEOUT_def)
  then show ?thesis by (simp add: flushInputBuffer_def receive_timeout)
qed

theorem handshake_worker_callback_witness:
  "handshake_worker 0x81 [False, True] [timeout_transfer, timeout_transfer, pattern_transfer]
     (replicate BUFFER_LEN 0)
   = Some [CancelLoad False, CancelLoad True, CancelStore]
   \<and> handshake_callbacks [CancelLoad False, CancelLoad True, CancelStore] = []
   \<and> map_option handshake_callbacks
       (handshake_worker 0x81 [False, False] [timeout_transfer, pattern_transfer]
          (replicate BUFFER_LEN 0))
     = Some [handshake_success (int BUFFER_LEN) handshake_pattern]"
  using handshake_worker_callback
      [where inEp = "0x81" and loads = "[False, False]"
         and xs = "[timeout_transfer, pattern_transfer]" and ?buf0.0 = "replicate BUFFER_LEN 0"
         and evs = "[CancelLoad False, CancelLoad False]" and cancelled = False
         and status = 0 and rd = "int BUFFER_LEN" and buf = handshake_pattern
         and xs' = "[]" and n = 0]
    handshake_worker_callback
      [where inEp = "0x81" and xs = "[timeout_transfer, timeout_transfer, pattern_transfer]"
         and ?buf0.0 = "replicate BUFFER_LEN 0"
         and xs' = "[timeout_transfer, pattern_transfer]" and ?buf1.0 = "replicate BUFFER_LEN 0"
         and n = 1 and later = "[]"]
    handshake_receive_example flush_example [of "[timeout_transfer, pattern_transfer]"]
  by (simp add: timeout_transfer_def)

subsection \<open>The cancellation flag at the end of a worker\<close>

lemma isCancelled_after_store: "isCancelled_after c (evs @ [CancelStore])"
proof (induction evs arbitrary: c)
  case Nil
  show ?case by simp
next
  case (Cons e evs)
  then show ?case by (cases e) simp_all
qed

lemma handshake_worker_ends:
  "handshake_worker inEp loads xs buf0 = Some tr \<Longrightarrow> \<exists>evs. tr = evs @ [CancelStore]"
  by (auto simp: handshake_worker_def split: option.splits)

lemma read_worker_ends:
  "read_worker loads xs buf0 = Some tr \<Longrightarrow> \<exists>evs. tr = evs @ [CancelStore]"
  by (auto simp: read_worker_def split: option.splits)

lemma send_worker_ends:
  "send_worker compress written ws = Some tr \<Longrightarrow> \<exists>evs. tr = evs @ [CancelStore]"
  by (auto simp: send_worker_def)

lemma ends_with_store:
  "\<exists>evs. tr = evs @ [CancelStore] \<Longrightarrow>
   tr \<noteq> [] \<and> last tr = CancelStore \<and> isCancelled_after c tr"
  using isCancelled_after_store by auto

text \<open>
  C10. Each of the three worker bodies, on every path on which it returns (cancellation
  seen, completion, or the error that ends its loop), makes the store of \<open>true\<close> to its
  cancellation flag the last event of its trace, so the flag is read as set afterwards.
\<close>

theorem workers_store_cancel_last:
  "(handshake_worker inEp loads xs buf0 = Some tr \<longrightarrow>
      tr \<noteq> [] \<and> last tr = CancelStore \<and> isCancelled_after c tr)
   \<and> (read_worker loads xs buf0 = Some tr' \<longrightarrow>
      tr' \<noteq> [] \<and> last tr' = CancelStore \<and> isCancelled_after c tr')
   \<and> (send_worker compress written ws = Some tr'' \<longrightarrow>
      tr'' \<noteq> [] \<and> last tr'' = CancelStore \<and> isCancelled_after c tr'')"
  using handshake_worker_ends [of inEp loads xs buf0 tr]
    read_worker_ends [of loads xs buf0 tr'] send_worker_ends [of compress written ws tr'']
    ends_with_store [of tr c] ends_with_store [of tr' c] ends_with_store [of tr'' c]
  by blast

lemma read_worker_error_example:
  "read_worker [False, False] [\<lparr>xstatus = - 1, xread = 0, xbytes = []\<rparr>] buf
   = Some [CancelLoad False, CancelLoad False, ReadCallback None, CancelStore]"
  by (simp add: read_worker_def LIBUSB_ERROR_TIMEOUT_def)

lemma send_worker_cancel_example:
  "send_worker compress written [WakeCancelled]
   = Some [CancelLoad True, BulkOut [0, 0, 0, 0], CancelStore]"
  by (simp add: send_worker_def)

theorem workers_store_cancel_last_witness:
  "handshake_worker 0x81 [False, False] [timeout_transfer, pattern_transfer]
     (replicate BUFFER_LEN 0)
     = Some ([CancelLoad False, CancelLoad False]
             @ [HandshakeStore (handshake_success (int BUFFER_LEN) handshake_pattern),
                HandshakeCallback (handshake_success (int BUFFER_LEN) handshake_pattern),
                CancelStore])
   \<and> isCancelled_after False
        ([CancelLoad False, CancelLoad False]
         @ [HandshakeStore (handshake_success (int BUFFER_LEN) handshake_pattern),
            HandshakeCallback (handshake_success (int BUFFER_LEN) handshake_pattern),
            CancelStore])
   \<and> read_worker [False, False] [\<lparr>xstatus = - 1, xread = 0, xbytes = []\<rparr>] []
       = Some [CancelLoad False, CancelLoad False, ReadCallback None, CancelStore]
   \<and> last [CancelLoad False, CancelLoad False, ReadCallback None, CancelStore] = CancelStore
   \<and> send_worker (\<lambda>rgb w h. rgb) (\<lambda>k. 0) [WakeCancelled]
       = Some [CancelLoad True, BulkOut [0, 0, 0, 0], CancelStore]
   \<and> isCancelled_after False [CancelLoad True, BulkOut [0, 0, 0, 0], CancelStore]"
  using workers_store_cancel_last
      [where inEp = "0x81" and loads = "[False, False]"
         and xs = "[timeout_transfer, pattern_transfer]"
         and ?buf0.0 = "replicate BUFFER_LEN 0"
         and tr = "[CancelLoad False, CancelLoad False]
             @ [HandshakeStore (handshake_success (int BUFFER_LEN) handshake_pattern),
                HandshakeCallback (handshake_success (int BUFFER_LEN) handshake_pattern),
                CancelStore]"
         and c = False
         and compress = "\<lambda>rgb w h. rgb" and written = "\<lambda>k. 0" and ws = "[WakeCancelled]"
         and tr'' = "[CancelLoad True, BulkOut [0, 0, 0, 0], CancelStore]"]
    handshake_worker_of_receive [OF handshake_receive_example]
    read_worker_error_example [of "[]"]
    send_worker_cancel_example [of "\<lambda>rgb w h. rgb" "\<lambda>k. 0"]
  by simp

subsection \<open>Construction\<close>

lemma and_single_bit:
  "(a :: byte) AND 2 ^ n = (if bit a n then 2 ^ n else 0)"
  by (rule bit_word_eqI) (auto simp: bit_simps)

lemma direction_bit: "(a :: byte) AND 0x80 \<noteq> 0x80 \<Longrightarrow> a AND 0x80 = 0"
  using and_single_bit [of a 7] by (simp split: if_splits)

lemma enumerate_endpoints_last:
  "enumerate_endpoints eps (inEp, outEp) =
     (if filter is_in eps = [] then inEp else bEndpointAddress (last (filter is_in eps)),
      if filter (\<lambda>e. \<not> is_in e) eps = [] then outEp
      else bEndpointAddress (last (filter (\<lambda>e. \<not> is_in e) eps)))"
proof (induction eps arbitrary: inEp outEp)
  case Nil
  show ?case by simp
next
  case (Cons e eps)
  show ?case
  proof (cases "is_in e")
    case True
    then have "bEndpointAddress e AND 0x80 = LIBUSB_ENDPOINT_IN"
      by (simp add: is_in_def LIBUSB_ENDPOINT_IN_def)
    with True show ?thesis
      by (simp add: Cons.IH)
  next
    case False
    then have "bEndpointAddress e AND 0x80 \<noteq> LIBUSB_ENDPOINT_IN"
      and "bEndpointAddress e AND 0x80 = LIBUSB_ENDPOINT_OUT"
      by (simp_all add: is_in_def direction_bit LIBUSB_ENDPOINT_IN_def LIBUSB_ENDPOINT_OUT_def)
    with False show ?thesis
      by (simp add: Cons.IH)
  qed
qed

lemma constructor_endpoints:
  "MayaUsbDevice_new bus ids in0 out0 = Inr d \<Longrightarrow>
   (inEndpoint d, outEndpoint d) = enumerate_endpoints (endpoints bus) (in0, out0)"
  by (auto simp: MayaUsbDevice_new_def split: option.splits if_splits prod.splits)

lemma constructor_outcome_independent:
  "isl (MayaUsbDevice_new (bus\<lparr>endpoints := eps\<rparr>) ids in0 out0)
     = isl (MayaUsbDevice_new bus ids in0 out0)"
  by (simp add: MayaUsbDevice_new_def split: option.splits prod.splits)

text \<open>
  C5 (as amended). After a successful construction the recorded IN address is that of the
  last endpoint of \<^verbatim>\<open>interface[0].altsetting[0]\<close> whose direction bit is set, when there is
  one, and the recorded OUT address that of the last endpoint whose direction bit is
  clear, when there is one; the transfer type is not looked at. Whether construction
  fails does not depend on the endpoints at all.
\<close>

theorem constructor_records_last_endpoints:
  "(MayaUsbDevice_new bus ids in0 out0 = Inr d \<longrightarrow>
      (filter is_in (endpoints bus) \<noteq> [] \<longrightarrow>
         inEndpoint d = bEndpointAddress (last (filter is_in (endpoints bus))))
      \<and> (filter (\<lambda>e. \<not> is_in e) (endpoints bus) \<noteq> [] \<longrightarrow>
         outEndpoint d = bEndpointAddress (last (filter (\<lambda>e. \<not> is_in e) (endpoints bus)))))
   \<and> isl (MayaUsbDevice_new (bus\<lparr>endpoints := eps\<rparr>) ids in0 out0)
       = isl (MayaUsbDevice_new bus ids in0 out0)"
proof (intro conjI impI)
  assume "MayaUsbDevice_new bus ids in0 out0 = Inr d"
  from constructor_endpoints [OF this]
  have e: "(inEndpoint d, outEndpoint d) = enumerate_endpoints (endpoints bus) (in0, out0)" .
  {
    assume "filter is_in (endpoints bus) \<noteq> []"
    with e show "inEndpoint d = bEndpointAddress (last (filter is_in (endpoints bus)))"
      by (simp add: enumerate_endpoints_last)
  }
  {
    assume "filter (\<lambda>e. \<not> is_in e) (endpoints bus) \<noteq> []"
    with e show "outEndpoint d = bEndpointAddress (last (filter (\<lambda>e. \<not> is_in e) (endpoints bus)))"
      by (simp add: enumerate_endpoints_last)
  }
next
  show "isl (MayaUsbDevice_new (bus\<lparr>endpoints := eps\<rparr>) ids in0 out0)
       = isl (MayaUsbDevice_new bus ids in0 out0)"
    by (rule constructor_outcome_independent)
qed

lemma example_bus_constructs:
  "MayaUsbDevice_new example_bus getAoapIds 0 0 =
     Inr \<lparr>dev_id = \<lparr>vid = 0x18D1, pid = 0x2D01\<rparr>, manufacturer = ''Acme'',
          product = ''Gadget'', inEndpoint = 0x83, outEndpoint = 0x04\<rparr>"
  by (simp add: MayaUsbDevice_new_def example_bus_def getAoapIds_def
      LIBUSB_ENDPOINT_IN_def LIBUSB_ENDPOINT_OUT_def)

text \<open>
  C5 (as stated) fails in each of its three parts. With bulk endpoints 0x81, 0x02, 0x83,
  0x04, in this order, the constructor records 0x83 and 0x04, while the first bulk
  endpoints of the two directions are 0x81 and 0x02. With an interrupt IN endpoint 0x81
  and no bulk IN endpoint it records 0x81. With no endpoint at all, the fields keep the
  values they held before the enumeration, here 0x55 and 0xAA, not zero.
\<close>

theorem constructor_first_bulk_counterexample:
  "MayaUsbDevice_new example_bus getAoapIds 0 0 =
     Inr \<lparr>dev_id = \<lparr>vid = 0x18D1, pid = 0x2D01\<rparr>, manufacturer = ''Acme'',
          product = ''Gadget'', inEndpoint = 0x83, outEndpoint = 0x04\<rparr>
   \<and> spec_first_bulk True (endpoints example_bus) = 0x81
   \<and> spec_first_bulk False (endpoints example_bus) = 0x02
   \<and> MayaUsbDevice_new
         (example_bus\<lparr>endpoints := [\<lparr>bEndpointAddress = 0x81, bmAttributes = 3\<rparr>,
                                    \<lparr>bEndpointAddress = 0x02, bmAttributes = 2\<rparr>]\<rparr>)
         getAoapIds 0 0 =
       Inr \<lparr>dev_id = \<lparr>vid = 0x18D1, pid = 0x2D01\<rparr>, manufacturer = ''Acme'',
            product = ''Gadget'', inEndpoint = 0x81, outEndpoint = 0x02\<rparr>
   \<and> spec_first_bulk True [\<lparr>bEndpointAddress = 0x81, bmAttributes = 3\<rparr>,
                            \<lparr>bEndpointAddress = 0x02, bmAttributes = 2\<rparr>] = 0
   \<and> MayaUsbDevice_new (example_bus\<lparr>endpoints := []\<rparr>) getAoapIds 0x55 0xAA =
       Inr \<lparr>dev_id = \<lparr>vid = 0x18D1, pid = 0x2D01\<rparr>, manufacturer = ''Acme'',
            product = ''Gadget'', inEndpoint = 0x55, outEndpoint = 0xAA\<rparr>"
  by (simp add: MayaUsbDevice_new_def example_bus_def getAoapIds_def
      LIBUSB_ENDPOINT_IN_def LIBUSB_ENDPOINT_OUT_def spec_first_bulk_def is_bulk_def is_in_def)

theorem constructor_records_last_endpoints_witness:
  "inEndpoint \<lparr>dev_id = \<lparr>vid = 0x18D1, pid = 0x2D01\<rparr>, manufacturer = ''Acme'',
          product = ''Gadget'', inEndpoint = 0x83, outEndpoint = 0x04\<rparr>
     = bEndpointAddress (last (filter is_in (endpoints example_bus)))
   \<and> outEndpoint \<lparr>dev_id = \<lparr>vid = 0x18D1, pid = 0x2D01\<rparr>, manufacturer = ''Acme'',
          product = ''Gadget'', inEndpoint = 0x83, outEndpoint = 0x04\<rparr>
     = bEndpointAddress (last (filter (\<lambda>e. \<not> is_in e) (endpoints example_bus)))
   \<and> isl (MayaUsbDevice_new (example_bus\<lparr>endpoints := []\<rparr>) getAoapIds 0 0) = False"
  using constructor_records_last_endpoints
      [where bus = example_bus and ids = getAoapIds and ?in0.0 = 0 and ?out0.0 = 0
         and eps = "[]"
         and d = "\<lparr>dev_id = \<lparr>vid = 0x18D1, pid = 0x2D01\<rparr>, manufacturer = ''Acme'',
          product = ''Gadget'', inEndpoint = 0x83, outEndpoint = 0x04\<rparr>"]
    example_bus_constructs
  by (simp add: example_bus_def is_in_def)

subsection \<open>Frame submission\<close>

text \<open>
  C3. When the lock is not obtained, or it is obtained while a frame is pending,
  \<open>sendStereo\<close> returns \<open>False\<close> (dropped) and the state (staging buffer, recorded width
  and height, ready flag) is what it was. It returns \<open>True\<close> (accepted) only with the lock
  obtained and no frame pending, and then the frame is staged, its width and half its
  height are recorded and the ready flag is set; with the lock, no frame pending and one
  of the two supported formats it does return \<open>True\<close>.
\<close>

theorem sendStereo_drop_or_accept:
  "((\<not> try_lock \<or> sendReady s) \<longrightarrow> sendStereo utils try_lock pixels desc s = (False, s))
   \<and> (fst (sendStereo utils try_lock pixels desc s) \<longrightarrow>
        try_lock \<and> \<not> sendReady s
        \<and> sendReady (snd (sendStereo utils try_lock pixels desc s))
        \<and> jpegBufferWidth (snd (sendStereo utils try_lock pixels desc s)) = fWidth desc
        \<and> jpegBufferHeight (snd (sendStereo utils try_lock pixels desc s)) = fHeight desc div 2
        \<and> rgbImageBuffer (snd (sendStereo utils try_lock pixels desc s))
            = (if fFormat desc = kR32G32B32A32_FLOAT
               then decomposeCheckerboardStereoFloat utils pixels (fWidth desc) (fHeight desc)
                      (rgbImageBuffer s)
               else decomposeCheckerboardStereoUchar utils pixels (fWidth desc) (fHeight desc)
                      (rgbImageBuffer s)))
   \<and> (try_lock \<and> \<not> sendReady s
        \<and> (fFormat desc = kR32G32B32A32_FLOAT \<or> fFormat desc = kR8G8B8A8_UNORM) \<longrightarrow>
        fst (sendStereo utils try_lock pixels desc s))"
  by (auto simp: sendStereo_def split: MRasterFormat.splits)

theorem sendStereo_drop_or_accept_witness:
  "sendStereo copy_utils True [1, 2, 3]
     \<lparr>fWidth = 4, fHeight = 2, fFormat = kR8G8B8A8_UNORM\<rparr> idle_frame_state
     = (True, staged_frame_state)
   \<and> sendStereo copy_utils True [7, 8, 9]
       \<lparr>fWidth = 4, fHeight = 2, fFormat = kR8G8B8A8_UNORM\<rparr> staged_frame_state
     = (False, staged_frame_state)
   \<and> sendStereo copy_utils False [7, 8, 9]
       \<lparr>fWidth = 4, fHeight = 2, fFormat = kR8G8B8A8_UNORM\<rparr> idle_frame_state
     = (False, idle_frame_state)"
proof -
  let ?d = "\<lparr>fWidth = 4, fHeight = 2, fFormat = kR8G8B8A8_UNORM\<rparr>"
  have a: "sendStereo copy_utils True [1, 2, 3] ?d idle_frame_state = (True, staged_frame_state)"
    using sendStereo_drop_or_accept [of True idle_frame_state copy_utils "[1, 2, 3]" ?d]
    by (simp add: prod_eq_iff idle_frame_state_def staged_frame_state_def copy_utils_def
        sendStereo_def)
  have b: "sendStereo copy_utils True [7, 8, 9] ?d staged_frame_state
             = (False, staged_frame_state)"
    using sendStereo_drop_or_accept [of True staged_frame_state copy_utils "[7, 8, 9]" ?d]
    by (simp add: staged_frame_state_def)
  have c: "sendStereo copy_utils False [7, 8, 9] ?d idle_frame_state
             = (False, idle_frame_state)"
    using sendStereo_drop_or_accept [of False idle_frame_state copy_utils "[7, 8, 9]" ?d]
    by simp
  from a b c show ?thesis by simp
qed

subsection \<open>The send loop\<close>

lemma unat_byte_of_drop:
  "unat (ucast (drop_bit k (v :: 32 word)) :: byte) = unat v div 2 ^ k mod 256"
proof -
  have "unat (ucast (drop_bit k v) :: byte) = unat (drop_bit k v) mod 256"
    by (simp add: unsigned_ucast_eq take_bit_eq_mod)
  also have "unat (drop_bit k v) = unat v div 2 ^ k"
    unfolding unat_drop_bit_eq by (rule drop_bit_eq_div)
  finally show ?thesis .
qed

lemma base256:
  fixes n :: nat
  assumes "n < 2 ^ 32"
  shows "(n div 2 ^ 24 mod 256) * 256 ^ 3 + ((n div 2 ^ 16 mod 256) * 256 ^ 2
         + ((n div 2 ^ 8 mod 256) * 256 + n mod 256)) = n"
proof -
  define q1 where "q1 = n div 256"
  define q2 where "q2 = q1 div 256"
  define q3 where "q3 = q2 div 256"
  have d8: "n div 2 ^ 8 = q1" by (simp add: q1_def)
  have d16: "n div 2 ^ 16 = q2"
    using div_mult2_eq [of n 256 256] by (simp add: q1_def q2_def)
  have d24: "n div 2 ^ 24 = q3"
    using div_mult2_eq [of n 65536 256] d16 by (simp add: q3_def)
  have small: "q3 < 256" using assms d24 by (simp add: less_mult_imp_div_less)
  have e1: "n = q1 * 256 + n mod 256" by (simp add: q1_def)
  have e2: "q1 = q2 * 256 + q1 mod 256" by (simp add: q2_def)
  have e3: "q2 = q3 * 256 + q2 mod 256" by (simp add: q3_def)
  have "(q3 mod 256) * 256 ^ 3 + ((q2 mod 256) * 256 ^ 2 + ((q1 mod 256) * 256 + n mod 256)) = n"
    using small e1 e2 e3 by simp
  then show ?thesis by (simp only: d8 d16 d24)
qed

lemma big_endian_roundtrip:
  "n < 2 ^ 32 \<Longrightarrow> big_endian_value (nativeToBig_bytes (of_nat n)) = n"
proof -
  assume n: "n < 2 ^ 32"
  have u: "unat (of_nat n :: 32 word) = n"
    using n by (simp add: unat_of_nat)
  have b0: "unat (ucast (of_nat n :: 32 word) :: byte) = n mod 256"
    using unat_byte_of_drop [of 0 "of_nat n"] u by simp
  have top: "n div 16777216 mod 256 = n div 16777216"
    using n by (simp add: less_mult_imp_div_less)
  show ?thesis
    using base256 [OF n] unat_byte_of_drop [of _ "of_nat n"] u b0 top
    by (simp add: nativeToBig_bytes_def)
qed

lemma nativeToBig_length: "length (nativeToBig_bytes v) = 4"
  by (simp add: nativeToBig_bytes_def)


lemma send_chunks_step:
  "i < length jpeg \<Longrightarrow>
   send_chunks written n jpeg i =
     (if written n < int (min BUFFER_LEN (length jpeg - i))
      then ([take BUFFER_LEN (drop i jpeg)], True, Suc n)
      else (case send_chunks written (Suc n) jpeg (i + BUFFER_LEN) of
              (reqs, error, n') \<Rightarrow> (take BUFFER_LEN (drop i jpeg) # reqs, error, n')))"
  by (subst send_chunks.simps) (simp add: Let_def min_def)

lemma send_chunks_done:
  "\<not> i < length jpeg \<Longrightarrow> send_chunks written n jpeg i = ([], False, n)"
  by (subst send_chunks.simps) simp

lemma payload_chunks_Nil: "payload_chunks [] = []"
  by (subst payload_chunks.simps) simp

lemma payload_chunks_step:
  "bytes \<noteq> [] \<Longrightarrow>
   payload_chunks bytes = take BUFFER_LEN bytes # payload_chunks (drop BUFFER_LEN bytes)"
  by (subst payload_chunks.simps) simp

lemma payload_chunks_concat: "concat (payload_chunks bytes) = bytes"
proof (induction bytes rule: payload_chunks.induct)
  case (1 bytes)
  show ?case
  proof (cases "bytes = []")
    case True
    then show ?thesis by (simp add: payload_chunks_Nil)
  next
    case False
    with "1.IH" show ?thesis by (simp add: payload_chunks_step)
  qed
qed

lemma payload_chunks_sizes:
  "c \<in> set (payload_chunks bytes) \<Longrightarrow> c \<noteq> [] \<and> length c \<le> BUFFER_LEN"
proof (induction bytes rule: payload_chunks.induct)
  case (1 bytes)
  show ?case
  proof (cases "bytes = []")
    case True
    with "1.prems" show ?thesis by (simp add: payload_chunks_Nil)
  next
    case False
    have pos: "0 < BUFFER_LEN" by (simp add: BUFFER_LEN_def)
    from False "1.prems" have
      "c = take BUFFER_LEN bytes \<or> c \<in> set (payload_chunks (drop BUFFER_LEN bytes))"
      by (simp add: payload_chunks_step)
    then show ?thesis
    proof
      assume "c = take BUFFER_LEN bytes"
      with False pos show ?thesis by auto
    next
      assume "c \<in> set (payload_chunks (drop BUFFER_LEN bytes))"
      with "1.IH" [OF False] show ?thesis by simp
    qed
  qed
qed

lemma chunk_length:
  "i < length jpeg \<Longrightarrow>
   int (min BUFFER_LEN (length jpeg - i)) = int (length (take BUFFER_LEN (drop i jpeg)))"
  by (simp add: min.commute)

lemma chunks_of_drop:
  "i < length jpeg \<Longrightarrow>
   payload_chunks (drop i jpeg)
     = take BUFFER_LEN (drop i jpeg) # payload_chunks (drop (i + BUFFER_LEN) jpeg)"
proof -
  assume "i < length jpeg"
  then have "drop i jpeg \<noteq> []" by simp
  then have "payload_chunks (drop i jpeg)
     = take BUFFER_LEN (drop i jpeg) # payload_chunks (drop BUFFER_LEN (drop i jpeg))"
    by (rule payload_chunks_step)
  then show ?thesis by (simp add: add.commute)
qed

lemma send_chunks_complete:
  "\<forall>k < length (payload_chunks (drop i jpeg)).
      int (length (payload_chunks (drop i jpeg) ! k)) \<le> written (n + k) \<Longrightarrow>
   send_chunks written n jpeg i
     = (payload_chunks (drop i jpeg), False, n + length (payload_chunks (drop i jpeg)))"
proof (induction written n jpeg i rule: send_chunks.induct)
  case (1 written n jpeg i)
  show ?case
  proof (cases "i < length jpeg")
    case False
    then show ?thesis by (simp add: send_chunks_done payload_chunks_Nil)
  next
    case True
    define req where "req = take BUFFER_LEN (drop i jpeg)"
    define rest where "rest = payload_chunks (drop (i + BUFFER_LEN) jpeg)"
    have cs: "payload_chunks (drop i jpeg) = req # rest"
      unfolding req_def rest_def using True by (rule chunks_of_drop)
    have first: "int (length req) \<le> written n"
      using "1.prems" cs by auto
    have later: "\<forall>k < length rest. int (length (rest ! k)) \<le> written (Suc n + k)"
    proof (intro allI impI)
      fix k assume "k < length rest"
      then have "Suc k < length (payload_chunks (drop i jpeg))" by (simp add: cs)
      with "1.prems" have
        "int (length (payload_chunks (drop i jpeg) ! Suc k)) \<le> written (n + Suc k)"
        by blast
      then show "int (length (rest ! k)) \<le> written (Suc n + k)" by (simp add: cs)
    qed
    have notshort: "\<not> written n < int (min BUFFER_LEN (length jpeg - i))"
      using first chunk_length [OF True] by (simp add: req_def)
    have "send_chunks written (Suc n) jpeg (i + BUFFER_LEN)
            = (rest, False, Suc n + length rest)"
      using "1.IH" [OF True refl refl] notshort later by (simp add: rest_def)
    with True notshort show ?thesis
      by (simp add: send_chunks_step cs req_def)
  qed
qed

lemma send_chunks_short:
  "k < length (payload_chunks (drop i jpeg)) \<Longrightarrow>
   \<forall>j<k. int (length (payload_chunks (drop i jpeg) ! j)) \<le> written (n + j) \<Longrightarrow>
   written (n + k) < int (length (payload_chunks (drop i jpeg) ! k)) \<Longrightarrow>
   send_chunks written n jpeg i
     = (take (Suc k) (payload_chunks (drop i jpeg)), True, Suc (n + k))"
proof (induction written n jpeg i arbitrary: k rule: send_chunks.induct)
  case (1 written n jpeg i)
  show ?case
  proof (cases "i < length jpeg")
    case False
    with "1.prems"(1) show ?thesis by (simp add: payload_chunks_Nil)
  next
    case True
    define req where "req = take BUFFER_LEN (drop i jpeg)"
    define rest where "rest = payload_chunks (drop (i + BUFFER_LEN) jpeg)"
    have cs: "payload_chunks (drop i jpeg) = req # rest"
      unfolding req_def rest_def using True by (rule chunks_of_drop)
    have len: "int (min BUFFER_LEN (length jpeg - i)) = int (length req)"
      using chunk_length [OF True] by (simp add: req_def)
    show ?thesis
    proof (cases k)
      case 0
      with "1.prems"(3) have "written n < int (length req)" by (simp add: cs)
      with True len 0 show ?thesis
        by (simp add: send_chunks_step cs req_def)
    next
      case (Suc k')
      from "1.prems"(2) Suc have first: "int (length req) \<le> written n"
        using cs by auto
      then have notshort: "\<not> written n < int (min BUFFER_LEN (length jpeg - i))"
        using len by simp
      have k': "k' < length rest" using "1.prems"(1) Suc cs by simp
      have before: "\<forall>j<k'. int (length (rest ! j)) \<le> written (Suc n + j)"
      proof (intro allI impI)
        fix j assume "j < k'"
        then have "Suc j < k" using Suc by simp
        with "1.prems"(2) have
          "int (length (payload_chunks (drop i jpeg) ! Suc j)) \<le> written (n + Suc j)"
          by blast
        then show "int (length (rest ! j)) \<le> written (Suc n + j)" by (simp add: cs)
      qed
      have here: "written (Suc n + k') < int (length (rest ! k'))"
        using "1.prems"(3) Suc cs by simp
      have "send_chunks written (Suc n) jpeg (i + BUFFER_LEN)
              = (take (Suc k') rest, True, Suc (Suc n + k'))"
        using "1.IH" [OF True refl refl notshort, of k'] k' before here
        by (simp add: rest_def)
      with True notshort Suc show ?thesis
        by (simp add: send_chunks_step cs req_def)
    qed
  qed
qed


lemma send_frame_short_header:
  "0 \<le> written n \<and> written n < 4 \<Longrightarrow>
   send_frame written n jpeg = ([nativeToBig_bytes (of_nat (length jpeg))], True, Suc n)"
  by (simp add: send_frame_def Let_def)

lemma send_frame_complete:
  "\<not> (0 \<le> written n \<and> written n < 4) \<Longrightarrow>
   \<forall>k < length (payload_chunks jpeg).
      int (length (payload_chunks jpeg ! k)) \<le> written (Suc n + k) \<Longrightarrow>
   send_frame written n jpeg
     = (nativeToBig_bytes (of_nat (length jpeg)) # payload_chunks jpeg, False,
        Suc n + length (payload_chunks jpeg))"
  using send_chunks_complete [of 0 jpeg written "Suc n"]
  by (simp add: send_frame_def Let_def)

lemma send_frame_short_chunk:
  "\<not> (0 \<le> written n \<and> written n < 4) \<Longrightarrow> k < length (payload_chunks jpeg) \<Longrightarrow>
   \<forall>j<k. int (length (payload_chunks jpeg ! j)) \<le> written (Suc n + j) \<Longrightarrow>
   written (Suc n + k) < int (length (payload_chunks jpeg ! k)) \<Longrightarrow>
   send_frame written n jpeg
     = (nativeToBig_bytes (of_nat (length jpeg)) # take (Suc k) (payload_chunks jpeg), True,
        Suc (Suc n + k))"
  using send_chunks_short [of k 0 jpeg written "Suc n"]
  by (simp add: send_frame_def Let_def)

text \<open>
  C2. For a frame whose payload is shorter than \<open>2 ^ 31\<close> bytes (the range in which the
  loop's \<^verbatim>\<open>int\<close> counter and the 32-bit header are exact): the header is 4 bytes, the
  payload length most significant byte first, and decodes to the exact length; the chunks
  are consecutive pieces of the payload, none empty and none longer than 16384 bytes, and
  reading the length from the first four bytes of header and chunks and then that many
  bytes gives the payload back. What the loop writes is exactly this: when the header
  write falls short, the header alone, and the iteration fails; when every write is
  complete, the header and then all the chunks in order, and the iteration succeeds; when
  chunk \<open>k\<close> is the first to fall short, the header and the chunks up to \<open>k\<close>, and the
  iteration fails. With every write complete the worker's trace for the frame is the load
  of the flag, these writes in this order and the reset of the ready flag, and a worker
  that next finds cancellation returns after them.
\<close>

theorem send_frame_framing:
  "length jpeg < 2 ^ 31 \<Longrightarrow>
   length (nativeToBig_bytes (of_nat (length jpeg))) = 4
   \<and> big_endian_value (nativeToBig_bytes (of_nat (length jpeg))) = length jpeg
   \<and> concat (payload_chunks jpeg) = jpeg
   \<and> (\<forall>c \<in> set (payload_chunks jpeg). c \<noteq> [] \<and> length c \<le> 16384)
   \<and> take (big_endian_value
              (take 4 (concat (nativeToBig_bytes (of_nat (length jpeg)) # payload_chunks jpeg))))
        (drop 4 (concat (nativeToBig_bytes (of_nat (length jpeg)) # payload_chunks jpeg)))
       = jpeg
   \<and> (0 \<le> written n \<and> written n < 4 \<longrightarrow>
        send_frame written n jpeg
          = ([nativeToBig_bytes (of_nat (length jpeg))], True, Suc n))
   \<and> (\<not> (0 \<le> written n \<and> written n < 4)
        \<and> (\<forall>k < length (payload_chunks jpeg).
              int (length (payload_chunks jpeg ! k)) \<le> written (Suc n + k)) \<longrightarrow>
        send_frame written n jpeg
          = (nativeToBig_bytes (of_nat (length jpeg)) # payload_chunks jpeg, False,
             Suc n + length (payload_chunks jpeg)))
   \<and> (\<not> (0 \<le> written n \<and> written n < 4) \<and> k < length (payload_chunks jpeg)
        \<and> (\<forall>j<k. int (length (payload_chunks jpeg ! j)) \<le> written (Suc n + j))
        \<and> written (Suc n + k) < int (length (payload_chunks jpeg ! k)) \<longrightarrow>
        send_frame written n jpeg
          = (nativeToBig_bytes (of_nat (length jpeg)) # take (Suc k) (payload_chunks jpeg),
             True, Suc (Suc n + k)))
   \<and> (\<not> (0 \<le> written n \<and> written n < 4)
        \<and> (\<forall>k < length (payload_chunks jpeg).
              int (length (payload_chunks jpeg ! k)) \<le> written (Suc n + k))
        \<and> compress rgb w h = jpeg \<longrightarrow>
        send_loop compress written n (WakeFrame rgb w h # ws)
          = map_option
              (\<lambda>t. CancelLoad False
                   # map BulkOut (nativeToBig_bytes (of_nat (length jpeg)) # payload_chunks jpeg)
                   @ SendReadyReset # t)
              (send_loop compress written (Suc n + length (payload_chunks jpeg)) ws)
        \<and> send_loop compress written n (WakeFrame rgb w h # WakeCancelled # ws)
          = Some (CancelLoad False
                  # map BulkOut (nativeToBig_bytes (of_nat (length jpeg)) # payload_chunks jpeg)
                  @ [SendReadyReset, CancelLoad True, BulkOut [0, 0, 0, 0]]))"
proof -
  assume small: "length jpeg < 2 ^ 31"
  define header where "header = nativeToBig_bytes (of_nat (length jpeg))"
  define chunks where "chunks = payload_chunks jpeg"
  have l: "length header = 4" by (simp add: header_def nativeToBig_length)
  have "length jpeg < 2 ^ 32" using small by simp
  then have v: "big_endian_value header = length jpeg"
    unfolding header_def by (rule big_endian_roundtrip)
  have c: "concat chunks = jpeg" by (simp add: chunks_def payload_chunks_concat)
  have s: "\<forall>c \<in> set chunks. c \<noteq> [] \<and> length c \<le> 16384"
    using payload_chunks_sizes [of _ jpeg] by (auto simp: chunks_def BUFFER_LEN_def)
  have rt: "take (big_endian_value (take 4 (concat (header # chunks))))
              (drop 4 (concat (header # chunks))) = jpeg"
    using l v c by simp
  have d: "0 \<le> written n \<and> written n < 4 \<longrightarrow>
        send_frame written n jpeg = ([header], True, Suc n)"
    unfolding header_def using send_frame_short_header [of written n jpeg] by blast
  have ok: "\<not> (0 \<le> written n \<and> written n < 4)
        \<and> (\<forall>k < length chunks. int (length (chunks ! k)) \<le> written (Suc n + k)) \<longrightarrow>
        send_frame written n jpeg = (header # chunks, False, Suc n + length chunks)"
    unfolding header_def chunks_def using send_frame_complete [of written n jpeg] by blast
  have sh: "\<not> (0 \<le> written n \<and> written n < 4) \<and> k < length chunks
        \<and> (\<forall>j<k. int (length (chunks ! j)) \<le> written (Suc n + j))
        \<and> written (Suc n + k) < int (length (chunks ! k)) \<longrightarrow>
        send_frame written n jpeg = (header # take (Suc k) chunks, True, Suc (Suc n + k))"
    unfolding header_def chunks_def using send_frame_short_chunk [of written n k jpeg]
    by blast
  have lp: "\<not> (0 \<le> written n \<and> written n < 4)
        \<and> (\<forall>k < length chunks. int (length (chunks ! k)) \<le> written (Suc n + k))
        \<and> compress rgb w h = jpeg \<longrightarrow>
        send_loop compress written n (WakeFrame rgb w h # ws)
          = map_option (\<lambda>t. CancelLoad False # map BulkOut (header # chunks) @ SendReadyReset # t)
              (send_loop compress written (Suc n + length chunks) ws)
        \<and> send_loop compress written n (WakeFrame rgb w h # WakeCancelled # ws)
          = Some (CancelLoad False # map BulkOut (header # chunks)
                  @ [SendReadyReset, CancelLoad True, BulkOut [0, 0, 0, 0]])"
  proof (intro impI)
    assume a: "\<not> (0 \<le> written n \<and> written n < 4)
        \<and> (\<forall>k < length chunks. int (length (chunks ! k)) \<le> written (Suc n + k))
        \<and> compress rgb w h = jpeg"
    with ok have f: "send_frame written n (compress rgb w h)
        = (header # chunks, False, Suc n + length chunks)"
      by simp
    then show "send_loop compress written n (WakeFrame rgb w h # ws)
          = map_option (\<lambda>t. CancelLoad False # map BulkOut (header # chunks) @ SendReadyReset # t)
              (send_loop compress written (Suc n + length chunks) ws)
        \<and> send_loop compress written n (WakeFrame rgb w h # WakeCancelled # ws)
          = Some (CancelLoad False # map BulkOut (header # chunks)
                  @ [SendReadyReset, CancelLoad True, BulkOut [0, 0, 0, 0]])"
      by simp
  qed
  from l v c s rt d ok sh lp show ?thesis
    unfolding header_def chunks_def by blast
qed


lemma header_example: "nativeToBig_bytes 20000 = [0, 0, 0x4E, 0x20]"
  by (simp add: nativeToBig_bytes_def)

lemma payload_chunks_example:
  "payload_chunks (replicate 20000 0xAB) = [replicate 16384 0xAB, replicate 3616 0xAB]"
proof -
  have a: "payload_chunks (replicate 20000 (0xAB :: byte))
      = replicate 16384 0xAB # payload_chunks (replicate 3616 0xAB)"
    by (subst payload_chunks_step) (simp_all add: BUFFER_LEN_def)
  have b: "payload_chunks (replicate 3616 (0xAB :: byte))
      = replicate 3616 0xAB # payload_chunks []"
    by (subst payload_chunks_step) (simp_all add: BUFFER_LEN_def)
  from a b show ?thesis by (simp add: payload_chunks_Nil)
qed

theorem send_frame_framing_witness:
  "send_frame example_written 0 (replicate 20000 0xAB)
     = ([[0, 0, 0x4E, 0x20], replicate 16384 0xAB, replicate 3616 0xAB], False, 3)
   \<and> send_frame short_header_written 0 (replicate 20000 0xAB)
     = ([[0, 0, 0x4E, 0x20]], True, 1)
   \<and> send_frame short_chunk_written 0 (replicate 20000 0xAB)
     = ([[0, 0, 0x4E, 0x20], replicate 16384 0xAB, replicate 3616 0xAB], True, 3)
   \<and> send_worker (\<lambda>rgb w h. rgb) example_written
       [WakeFrame (replicate 20000 0xAB) 100 50, WakeCancelled]
     = Some [CancelLoad False, BulkOut [0, 0, 0x4E, 0x20], BulkOut (replicate 16384 0xAB),
             BulkOut (replicate 3616 0xAB), SendReadyReset, CancelLoad True,
             BulkOut [0, 0, 0, 0], CancelStore]
   \<and> big_endian_value [0, 0, 0x4E, 0x20] = 20000
   \<and> concat [replicate 16384 0xAB, replicate 3616 (0xAB :: byte)] = replicate 20000 0xAB"
proof -
  let ?jpeg = "replicate 20000 (0xAB :: byte)"
  have small: "length ?jpeg < 2 ^ 31" by simp
  have hdr: "nativeToBig_bytes (of_nat (length ?jpeg)) = [0, 0, 0x4E, 0x20]"
    by (simp add: header_example)
  have all2: "(\<forall>k<Suc (Suc 0). P k) \<longleftrightarrow> P 0 \<and> P (Suc 0)" for P
    by (auto simp: less_Suc_eq)
  have all1: "(\<forall>k<Suc 0. P k) \<longleftrightarrow> P 0" for P
    by simp
  have full: "send_frame example_written 0 ?jpeg
       = ([[0, 0, 0x4E, 0x20], replicate 16384 0xAB, replicate 3616 0xAB], False, 3)
     \<and> big_endian_value [0, 0, 0x4E, 0x20] = 20000
     \<and> concat [replicate 16384 0xAB, replicate 3616 (0xAB :: byte)] = ?jpeg
     \<and> send_loop (\<lambda>rgb w h. rgb) example_written 0 [WakeFrame ?jpeg 100 50, WakeCancelled]
       = Some [CancelLoad False, BulkOut [0, 0, 0x4E, 0x20], BulkOut (replicate 16384 0xAB),
               BulkOut (replicate 3616 0xAB), SendReadyReset, CancelLoad True,
               BulkOut [0, 0, 0, 0]]"
    using send_frame_framing
        [OF small, where written = example_written and n = 0 and k = 0
           and compress = "\<lambda>rgb w h. rgb" and rgb = ?jpeg and w = 100 and h = 50
           and ws = "[]"]
    unfolding hdr payload_chunks_example
    by (simp add: all2 example_written_def)
  have short_header: "send_frame short_header_written 0 ?jpeg
       = ([[0, 0, 0x4E, 0x20]], True, 1)"
    using send_frame_framing
        [OF small, where written = short_header_written and n = 0 and k = 0]
    unfolding hdr payload_chunks_example
    by (simp add: short_header_written_def)
  have short_chunk: "send_frame short_chunk_written 0 ?jpeg
       = ([[0, 0, 0x4E, 0x20], replicate 16384 0xAB, replicate 3616 0xAB], True, 3)"
    using send_frame_framing
        [OF small, where written = short_chunk_written and n = 0 and k = 1]
    unfolding hdr payload_chunks_example
    by (simp add: all1 short_chunk_written_def)
  from full short_header short_chunk show ?thesis
    by (simp add: send_worker_def)
qed

lemma send_loop_cancel_shape:
  "send_loop compress written n ws = Some t \<Longrightarrow> CancelLoad True \<in> set t \<Longrightarrow>
   \<exists>pre. t = pre @ [CancelLoad True, BulkOut [0, 0, 0, 0]]
     \<and> CancelLoad True \<notin> set pre \<and> FailureCallback \<notin> set t"
proof (induction ws arbitrary: n t)
  case Nil
  then show ?case by simp
next
  case (Cons wk ws)
  show ?case
  proof (cases wk)
    case WakeCancelled
    with Cons.prems have "t = [] @ [CancelLoad True, BulkOut [0, 0, 0, 0]]" by simp
    then show ?thesis by (intro exI [of _ "[]"]) simp
  next
    case (WakeFrame rgb w h)
    obtain reqs error n' where f: "send_frame written n (compress rgb w h) = (reqs, error, n')"
      by (cases "send_frame written n (compress rgb w h)") auto
    show ?thesis
    proof (cases error)
      case True
      with f WakeFrame Cons.prems(1)
      have "t = CancelLoad False # map BulkOut reqs @ [FailureCallback]" by simp
      with Cons.prems(2) show ?thesis by auto
    next
      case False
      with f WakeFrame Cons.prems(1) obtain t' where
        rec: "send_loop compress written n' ws = Some t'"
        and t: "t = CancelLoad False # map BulkOut reqs @ SendReadyReset # t'"
        by auto
      with Cons.prems(2) have "CancelLoad True \<in> set t'" by auto
      from Cons.IH [OF rec this] obtain pre where
        p: "t' = pre @ [CancelLoad True, BulkOut [0, 0, 0, 0]]"
        "CancelLoad True \<notin> set pre" "FailureCallback \<notin> set t'"
        by blast
      let ?pre = "CancelLoad False # map BulkOut reqs @ SendReadyReset # pre"
      have "t = ?pre @ [CancelLoad True, BulkOut [0, 0, 0, 0]]" using t p by simp
      moreover have "CancelLoad True \<notin> set ?pre" using p by auto
      moreover have "FailureCallback \<notin> set t" using t p by auto
      ultimately show ?thesis by blast
    qed
  qed
qed

lemma send_loop_returns:
  "WakeCancelled \<in> set ws \<Longrightarrow> \<exists>t. send_loop compress written n ws = Some t"
proof (induction ws arbitrary: n)
  case Nil
  then show ?case by simp
next
  case (Cons wk ws)
  show ?case
  proof (cases wk)
    case WakeCancelled
    then show ?thesis by simp
  next
    case (WakeFrame rgb w h)
    with Cons.prems have "WakeCancelled \<in> set ws" by simp
    from Cons.IH [OF this] WakeFrame show ?thesis
      by (auto split: prod.splits)
  qed
qed

text \<open>
  C7. If a run of the send worker saw the cancellation flag set, its trace ends with that
  load, one bulk write of four zero bytes and the store to the flag: nothing else follows
  the load, no load before it saw the flag set, and the failure callback does not occur in
  the trace. A worker that finds cancellation at some wake-up returns; when it finds it at
  once it does exactly these three things, whatever the endpoint reports for the write.
\<close>

theorem send_worker_cancellation:
  "(send_worker compress written ws = Some tr \<and> CancelLoad True \<in> set tr \<longrightarrow>
      (\<exists>pre. tr = pre @ [CancelLoad True, BulkOut [0, 0, 0, 0], CancelStore]
         \<and> CancelLoad True \<notin> set pre)
      \<and> FailureCallback \<notin> set tr)
   \<and> (WakeCancelled \<in> set ws \<longrightarrow> (\<exists>t. send_worker compress written ws = Some t))
   \<and> send_worker compress written (WakeCancelled # ws)
       = Some [CancelLoad True, BulkOut [0, 0, 0, 0], CancelStore]"
proof (intro conjI impI)
  assume a: "send_worker compress written ws = Some tr \<and> CancelLoad True \<in> set tr"
  then obtain t where t: "send_loop compress written 0 ws = Some t" "tr = t @ [CancelStore]"
    by (auto simp: send_worker_def)
  with a have "CancelLoad True \<in> set t" by auto
  from send_loop_cancel_shape [OF t(1) this] obtain pre where
    p: "t = pre @ [CancelLoad True, BulkOut [0, 0, 0, 0]]"
    "CancelLoad True \<notin> set pre" "FailureCallback \<notin> set t"
    by blast
  with t show "\<exists>pre. tr = pre @ [CancelLoad True, BulkOut [0, 0, 0, 0], CancelStore]
         \<and> CancelLoad True \<notin> set pre"
    by auto
  from p t show "FailureCallback \<notin> set tr" by auto
next
  assume "WakeCancelled \<in> set ws"
  from send_loop_returns [OF this, of compress written 0]
  show "\<exists>t. send_worker compress written ws = Some t"
    by (auto simp: send_worker_def)
next
  show "send_worker compress written (WakeCancelled # ws)
       = Some [CancelLoad True, BulkOut [0, 0, 0, 0], CancelStore]"
    by (simp add: send_worker_def)
qed


lemma send_worker_example:
  "send_worker (\<lambda>rgb w h. rgb) example_written [WakeFrame [1, 2, 3] 1 1, WakeCancelled]
   = Some [CancelLoad False, BulkOut [0, 0, 0, 3], BulkOut [1, 2, 3], SendReadyReset,
           CancelLoad True, BulkOut [0, 0, 0, 0], CancelStore]"
proof -
  have c1: "send_chunks example_written (Suc (Suc 0)) [1, 2, 3] (0 + BUFFER_LEN)
              = ([], False, 2)"
    by (subst send_chunks_done) (simp_all add: BUFFER_LEN_def)
  have c0: "send_chunks example_written (Suc 0) [1, 2, 3] 0 = ([[1, 2, 3]], False, 2)"
    using c1 by (subst send_chunks_step) (simp_all add: BUFFER_LEN_def example_written_def)
  have "send_frame example_written 0 [1, 2, 3] = ([[0, 0, 0, 3], [1, 2, 3]], False, 2)"
    using c0 by (simp add: send_frame_def example_written_def nativeToBig_bytes_def)
  then show ?thesis by (simp add: send_worker_def)
qed

theorem send_worker_cancellation_witness:
  "send_worker (\<lambda>rgb w h. rgb) example_written [WakeFrame [1, 2, 3] 1 1, WakeCancelled]
     = Some ([CancelLoad False, BulkOut [0, 0, 0, 3], BulkOut [1, 2, 3], SendReadyReset]
             @ [CancelLoad True, BulkOut [0, 0, 0, 0], CancelStore])
   \<and> FailureCallback
       \<notin> set ([CancelLoad False, BulkOut [0, 0, 0, 3], BulkOut [1, 2, 3], SendReadyReset]
              @ [CancelLoad True, BulkOut [0, 0, 0, 0], CancelStore])"
  using send_worker_cancellation
      [where compress = "\<lambda>rgb w h. rgb" and written = example_written
         and ws = "[WakeFrame [1, 2, 3] 1 1, WakeCancelled]"
         and tr = "[CancelLoad False, BulkOut [0, 0, 0, 3], BulkOut [1, 2, 3], SendReadyReset]
             @ [CancelLoad True, BulkOut [0, 0, 0, 0], CancelStore]"]
    send_worker_example
  by simp

end
